theory Spec2Isabelle
  imports Complex_Main "HOL-Library.Product_Lexorder" "HOL-Library.List_Lexorder" "HOL-Library.Char_ord"
begin

section \<open>Floating-point values in exact arithmetic\<close>

text \<open>
  A Python float is modelled as an exact rational or one of the three non-finite
  values. Rounding, overflow and signed zeros are not modelled: the statements below
  are about exact arithmetic, with the IEEE rules for NaN and the infinities. The one
  exception is \<open>fill_double\<close>, which has the underflow of a product and the integers
  beyond the floats written out.
\<close>

datatype fl = Fin rat | PInf | NInf | NaN

fun isnan :: "fl \<Rightarrow> bool" where
  "isnan NaN = True"
| "isnan _ = False"

fun isinf :: "fl \<Rightarrow> bool" where
  "isinf PInf = True"
| "isinf NInf = True"
| "isinf _ = False"

fun isfin :: "fl \<Rightarrow> bool" where
  "isfin (Fin _) = True"
| "isfin _ = False"

instantiation fl :: "{plus, uminus, minus, times, inverse, ord}"
begin

fun plus_fl :: "fl \<Rightarrow> fl \<Rightarrow> fl" where
  "plus_fl NaN _ = NaN"
| "plus_fl _ NaN = NaN"
| "plus_fl (Fin a) (Fin b) = Fin (a + b)"
| "plus_fl PInf NInf = NaN"
| "plus_fl NInf PInf = NaN"
| "plus_fl PInf _ = PInf"
| "plus_fl _ PInf = PInf"
| "plus_fl NInf _ = NInf"
| "plus_fl _ NInf = NInf"

fun uminus_fl :: "fl \<Rightarrow> fl" where
  "uminus_fl NaN = NaN"
| "uminus_fl (Fin a) = Fin (- a)"
| "uminus_fl PInf = NInf"
| "uminus_fl NInf = PInf"

definition minus_fl :: "fl \<Rightarrow> fl \<Rightarrow> fl" where
  "minus_fl a b = a + (- b)"

fun times_fl :: "fl \<Rightarrow> fl \<Rightarrow> fl" where
  "times_fl NaN _ = NaN"
| "times_fl _ NaN = NaN"
| "times_fl (Fin a) (Fin b) = Fin (a * b)"
| "times_fl (Fin a) PInf = (if a = 0 then NaN else if 0 < a then PInf else NInf)"
| "times_fl (Fin a) NInf = (if a = 0 then NaN else if 0 < a then NInf else PInf)"
| "times_fl PInf (Fin b) = (if b = 0 then NaN else if 0 < b then PInf else NInf)"
| "times_fl NInf (Fin b) = (if b = 0 then NaN else if 0 < b then NInf else PInf)"
| "times_fl PInf PInf = PInf"
| "times_fl NInf NInf = PInf"
| "times_fl PInf NInf = NInf"
| "times_fl NInf PInf = NInf"

text \<open>
  Python raises ZeroDivisionError on a zero divisor. Every division of the modelled
  code is either guarded by a test of the divisor or has the raise written out at the
  call site, so the value chosen here for a zero divisor is never observed.
\<close>

fun divide_fl :: "fl \<Rightarrow> fl \<Rightarrow> fl" where
  "divide_fl NaN _ = NaN"
| "divide_fl _ NaN = NaN"
| "divide_fl (Fin a) (Fin b) = (if b = 0 then NaN else Fin (a / b))"
| "divide_fl (Fin a) PInf = Fin 0"
| "divide_fl (Fin a) NInf = Fin 0"
| "divide_fl PInf (Fin b) = (if b = 0 then NaN else if 0 < b then PInf else NInf)"
| "divide_fl NInf (Fin b) = (if b = 0 then NaN else if 0 < b then NInf else PInf)"
| "divide_fl PInf PInf = NaN"
| "divide_fl PInf NInf = NaN"
| "divide_fl NInf PInf = NaN"
| "divide_fl NInf NInf = NaN"

definition inverse_fl :: "fl \<Rightarrow> fl" where
  "inverse_fl a = divide (Fin 1) a"

text \<open>Python's \<open><\<close> and \<open><=\<close> on floats: every comparison with NaN is false.\<close>

fun less_fl :: "fl \<Rightarrow> fl \<Rightarrow> bool" where
  "less_fl NaN _ = False"
| "less_fl _ NaN = False"
| "less_fl (Fin a) (Fin b) = (a < b)"
| "less_fl NInf NInf = False"
| "less_fl NInf _ = True"
| "less_fl _ NInf = False"
| "less_fl PInf _ = False"
| "less_fl _ PInf = True"

fun less_eq_fl :: "fl \<Rightarrow> fl \<Rightarrow> bool" where
  "less_eq_fl NaN _ = False"
| "less_eq_fl _ NaN = False"
| "less_eq_fl (Fin a) (Fin b) = (a \<le> b)"
| "less_eq_fl NInf _ = True"
| "less_eq_fl _ PInf = True"
| "less_eq_fl _ _ = False"

instance ..

end

text \<open>
  Modelled from the spec: \<open>numeq\<close> of \<open>histogrammar.util\<close> is not among the
  sources. The spec describes it as the single comparison that treats NaN as equal to
  NaN and applies the library-wide relative and absolute tolerance; the two tolerances
  are parameters here (the test suite sets both to \<open>1e-12\<close>).
\<close>

fun numeq :: "rat \<Rightarrow> rat \<Rightarrow> fl \<Rightarrow> fl \<Rightarrow> bool" where
  "numeq rtol atol NaN NaN = True"
| "numeq rtol atol PInf PInf = True"
| "numeq rtol atol NInf NInf = True"
| "numeq rtol atol (Fin a) (Fin b) = (\<bar>a - b\<bar> \<le> max (rtol * max \<bar>a\<bar> \<bar>b\<bar>) atol)"
| "numeq rtol atol _ _ = False"

section \<open>Python values, extractors and errors\<close>

text \<open>
  Python values: what a user-supplied quantity function may return, and what a decoded
  JSON document is made of. Python's \<open>int\<close>, \<open>long\<close> and \<open>float\<close> are all \<open>PNum\<close>
  (a number beyond the range of the floats can only be an \<open>int\<close> or a \<open>long\<close>);
  \<open>bool\<close> is a subclass of \<open>int\<close> and counts as a number wherever the code tests
  \<open>numbers.Real\<close> or \<open>(bool, int, long, float)\<close>. A dictionary with string keys is
  the list of its items.
\<close>

datatype pyval =
    PNone
  | PBool bool
  | PNum fl
  | PStr string
  | PList "pyval list"
  | PDict "(string \<times> pyval) list"

datatype error =
    TypeError
  | ContainerException
  | JsonFormatException
  | ValueError
  | KeyError
  | AttributeError
  | ZeroDivisionError
  | OverflowError
  | NotCallable

text \<open>\<open>isinstance(q, numbers.Real)\<close> together with the value as a float.\<close>

fun as_real :: "pyval \<Rightarrow> fl option" where
  "as_real (PBool b) = Some (Fin (if b then 1 else 0))"
| "as_real (PNum x) = Some x"
| "as_real _ = None"

text \<open>
  Modelled from the spec: \<open>serializable\<close> of \<open>histogrammar.util\<close> is not among the
  sources. A quantity is the wrapped extractor together with its optional textual
  name; a past-tense primitive is built from \<open>None\<close> and has no extractor, so calling
  its quantity fails. Two quantities are equal when extractor and name are.
\<close>

record 'd quantity =
  expr :: "('d \<Rightarrow> pyval) option"
  name :: "string option"

definition serializable :: "('d \<Rightarrow> pyval) option \<Rightarrow> 'd quantity" where
  "serializable f = \<lparr>expr = f, name = None\<rparr>"

definition call :: "'d quantity \<Rightarrow> 'd \<Rightarrow> error + pyval" where
  "call q datum = (case expr q of None \<Rightarrow> Inl NotCallable | Some f \<Rightarrow> Inr (f datum))"

section \<open>The primitives\<close>

text \<open>
  Keys of a Bag: a float, a string, or a tuple of floats. The code keeps a NaN in a key
  as the string \<open>"nan"\<close> (\<open>x[0] != "nan"\<close>, \<open>self.values.get("nan")\<close>): the NaN
  key is \<open>KNum NaN\<close> here, and a NaN inside \<open>KTup\<close> is such a string inside the
  tuple. A string \<open>"nan"\<close> that an extractor returns is therefore the NaN key too, and
  \<open>KStr ''nan''\<close> is no key of its own.
\<close>

datatype bkey = KNum fl | KStr string | KTup "fl list"

datatype 'd prim =
    Bag (quantity: "'d quantity") (entries: fl) (vals: "(bkey \<times> fl) list")
  | Deviate (quantity: "'d quantity") (entries: fl) (mean: fl) (varianceTimesEntries: fl)
  | Fraction (quantity: "'d quantity") (entries: fl) (numerator: "'d prim") (denominator: "'d prim")
  | Select (quantity: "'d quantity") (entries: fl) (cut: "'d prim")

text \<open>
  The constructors keep the fields of the classes in the order entries, then the
  class's own state. A constructor of the code that receives \<open>self.quantity\<close> keeps the
  wrapped quantity as it is. \<open>_checkForCrossReferences\<close> (not among the sources) looks
  for one object reached twice in a tree; values have no identity here, so the check
  has nothing to find.
\<close>

subsection \<open>Dictionaries of weights\<close>

text \<open>\<open>if k in d: d[k] += w else: d[k] = w\<close> on a dictionary kept as a list of items.\<close>

fun dict_add :: "'k \<Rightarrow> fl \<Rightarrow> ('k \<times> fl) list \<Rightarrow> ('k \<times> fl) list" where
  "dict_add k w [] = [(k, w)]"
| "dict_add k w ((k', v) # kvs) =
     (if k = k' then (k', v + w) # kvs else (k', v) # dict_add k w kvs)"

text \<open>
  Modelled from the spec: \<open>floatOrNan\<close> of \<open>histogrammar.util\<close> is not among the
  sources. The spec: finite numbers become floats and \<open>"nan"\<close>, \<open>"inf"\<close>, \<open>"-inf"\<close>
  become the IEEE values; \<open>None\<close> is a value the conversion raises on. The result
  \<open>NaN\<close> stands for the string \<open>"nan"\<close> under which \<open>Bag\<close> keeps it.
\<close>

fun floatOrNan :: "pyval \<Rightarrow> fl option" where
  "floatOrNan (PNum x) = Some x"
| "floatOrNan (PBool b) = Some (Fin (if b then 1 else 0))"
| "floatOrNan (PStr s) =
     (if s = ''nan'' then Some NaN else if s = ''inf'' then Some PInf
      else if s = ''-inf'' then Some NInf else None)"
| "floatOrNan _ = None"

text \<open>The coercion at the head of \<open>Bag._update\<close>; \<open>None\<close> is its TypeError.\<close>

fun Bag_key :: "pyval \<Rightarrow> bkey option" where
  "Bag_key (PStr s) = Some (if s = ''nan'' then KNum NaN else KStr s)"
| "Bag_key (PList xs) = map_option KTup (those (map floatOrNan xs))"
| "Bag_key v = map_option KNum (floatOrNan v)"

subsection \<open>zero, fill and +\<close>

fun zero :: "'d prim \<Rightarrow> 'd prim" where
  "zero (Bag q e vs) = Bag q (Fin 0) []"
| "zero (Deviate q e m s) = Deviate q (Fin 0) (Fin 0) (Fin 0)"
| "zero (Fraction q e n d) = Fraction q (Fin 0) (zero n) (zero d)"
| "zero (Select q e c) = Select q (Fin 0) (zero c)"

text \<open>
  \<open>fill\<close> mutates the tree in place and may raise part-way, so the model returns the
  error raised, if any, together with the tree as the call leaves it.
\<close>

fun fill :: "'d prim \<Rightarrow> 'd \<Rightarrow> fl \<Rightarrow> error option \<times> 'd prim" where
  "fill (Bag q e vs) datum weight =
     (if Fin 0 < weight then
        (case call q datum of
           Inl err \<Rightarrow> (Some err, Bag q e vs)
         | Inr v \<Rightarrow>
            (case Bag_key v of
               None \<Rightarrow> (Some TypeError, Bag q e vs)
             | Some k \<Rightarrow> (None, Bag q (e + weight) (dict_add k weight vs))))
      else (None, Bag q e vs))"
| "fill (Deviate q e m s) datum weight =
     (if Fin 0 < weight then
        (case call q datum of
           Inl err \<Rightarrow> (Some err, Deviate q e m s)
         | Inr v \<Rightarrow>
            (case as_real v of
               None \<Rightarrow> (Some TypeError, Deviate q e m s)
             | Some x \<Rightarrow>
                (let e' = e + weight in
                 if isnan m \<or> isnan x then (None, Deviate q e' NaN NaN)
                 else if isinf m \<or> isinf x then
                   (let m1 = (if isinf m \<and> isinf x \<and> m * x < Fin 0 then NaN
                              else if isinf x then x else m);
                        m2 = (if isinf e' \<or> isnan e' then NaN else m1)
                    in (None, Deviate q e' m2 NaN))
                 else if e' = Fin 0 then (Some ZeroDivisionError, Deviate q e' m s)
                 else
                   (let delta = x - m;
                        shift = delta * weight / e';
                        m' = m + shift
                    in (None, Deviate q e' m' (s + weight * delta * (x - m')))))))
      else (None, Deviate q e m s))"
| "fill (Fraction q e n d) datum weight =
     (case call q datum of
        Inl err \<Rightarrow> (Some err, Fraction q e n d)
      | Inr v \<Rightarrow>
         (case as_real v of
            None \<Rightarrow> (Some TypeError, Fraction q e n d)
          | Some x \<Rightarrow>
             (let w = x * weight in
              case (if Fin 0 < weight then fill d datum weight else (None, d)) of
                (Some err, d') \<Rightarrow> (Some err, Fraction q e n d')
              | (None, d') \<Rightarrow>
                 (case (if Fin 0 < w then fill n datum w else (None, n)) of
                    (Some err, n') \<Rightarrow> (Some err, Fraction q e n' d')
                  | (None, n') \<Rightarrow> (None, Fraction q (e + weight) n' d')))))"
| "fill (Select q e c) datum weight =
     (case call q datum of
        Inl err \<Rightarrow> (Some err, Select q e c)
      | Inr v \<Rightarrow>
         (case as_real v of
            None \<Rightarrow> (Some TypeError, Select q e c)
          | Some x \<Rightarrow>
             (let w = x * weight in
              if Fin 0 < w then
                (case fill c datum w of
                   (Some err, c') \<Rightarrow> (Some err, Select q e c')
                 | (None, c') \<Rightarrow> (None, Select q (e + weight) c'))
              else (None, Select q (e + weight) c))))"

fun add :: "'d prim \<Rightarrow> 'd prim \<Rightarrow> error + 'd prim" where
  "add (Bag q e vs) (Bag q' e' vs') =
     Inr (Bag q (e + e') (fold (\<lambda>(k, c) out. dict_add k c out) vs' vs))"
| "add (Deviate q ca ma sa) (Deviate q' cb mb sb) =
     (let e = ca + cb;
          m = (if e = Fin 0 then (ma + mb) / Fin 2
               else (ca * ma + cb * mb) / (ca + cb))
      in Inr (Deviate q e m
           (sa + sb + ca * ma * ma + cb * mb * mb
              - Fin 2 * m * (ca * ma + cb * mb) + m * m * e)))"
| "add (Fraction q e n d) (Fraction q' e' n' d') =
     (case add n n' of
        Inl err \<Rightarrow> Inl err
      | Inr n'' \<Rightarrow>
         (case add d d' of
            Inl err \<Rightarrow> Inl err
          | Inr d'' \<Rightarrow> Inr (Fraction q (Fin 0) n'' d'')))"
| "add (Select q e c) (Select q' e' c') =
     (case add c c' of
        Inl err \<Rightarrow> Inl err
      | Inr c'' \<Rightarrow> Inr (Select q (e + e') c''))"
| "add _ _ = Inl ContainerException"

text \<open>The \<open>variance\<close> property of Deviate.\<close>

definition variance :: "'d prim \<Rightarrow> fl" where
  "variance p =
     (if entries p = Fin 0 then varianceTimesEntries p
      else varianceTimesEntries p / entries p)"

text \<open>A loop of fills, \<open>for (x, w) in data: h.fill(x, w)\<close>, which an exception leaves.\<close>

fun fill_all :: "'d prim \<Rightarrow> ('d \<times> fl) list \<Rightarrow> error option \<times> 'd prim" where
  "fill_all p [] = (None, p)"
| "fill_all p ((x, w) # xs) =
     (case fill p x w of
        (Some err, p') \<Rightarrow> (Some err, p')
      | (None, p') \<Rightarrow> fill_all p' xs)"

text \<open>The two ways of bracketing a sum of three, \<open>(A + B) + C\<close> and \<open>A + (B + C)\<close>.\<close>

definition assoc_l :: "'d prim \<Rightarrow> 'd prim \<Rightarrow> 'd prim \<Rightarrow> error + 'd prim" where
  "assoc_l A B C = (case add A B of Inl err \<Rightarrow> Inl err | Inr ab \<Rightarrow> add ab C)"

definition assoc_r :: "'d prim \<Rightarrow> 'd prim \<Rightarrow> 'd prim \<Rightarrow> error + 'd prim" where
  "assoc_r A B C = (case add B C of Inl err \<Rightarrow> Inl err | Inr bc \<Rightarrow> add A bc)"

subsection \<open>fill in double precision\<close>

text \<open>
  \<open>fill\<close> above computes with exact numbers. Two effects of Python's numbers decide
  whether a fill raises, and after which updates. The product of two floats underflows
  to zero when its magnitude is at most \<open>2^-1075\<close>, and overflows to an infinity from
  \<open>2^1024 - 2^970\<close> on. And an \<open>int\<close> of that magnitude has no float: \<open>math.isnan(q)\<close>
  and \<open>w *= weight\<close> raise OverflowError on it, and \<open>floatOrNan\<close> raises inside the
  \<open>try\<close> of \<open>Bag._update\<close>, whose \<open>except\<close> turns every exception into the TypeError.
  \<open>fill_double\<close> is \<open>fill\<close> with these two effects, for a weight that is a float.
  Rounding to 53 bits and the overflow of a sum are left out: they change the numbers
  stored, not whether a fill raises.
\<close>

fun too_large :: "fl \<Rightarrow> bool" where
  "too_large (Fin r) = (2 ^ 1024 - 2 ^ 970 \<le> \<bar>r\<bar>)"
| "too_large _ = False"

definition double_mult :: "fl \<Rightarrow> fl \<Rightarrow> fl" where
  "double_mult a b =
     (case a * b of
        Fin r \<Rightarrow>
          if \<bar>r\<bar> \<le> 1 / 2 ^ 1075 then Fin 0
          else if too_large (Fin r) then (if 0 < r then PInf else NInf)
          else Fin r
      | p \<Rightarrow> p)"

text \<open>\<open>float(x)\<close> raises OverflowError.\<close>

fun float_raises :: "pyval \<Rightarrow> bool" where
  "float_raises (PNum x) = too_large x"
| "float_raises _ = False"

fun Bag_key_double :: "pyval \<Rightarrow> bkey option" where
  "Bag_key_double (PList xs) = (if list_ex float_raises xs then None else Bag_key (PList xs))"
| "Bag_key_double v = (if float_raises v then None else Bag_key v)"

fun fill_double :: "'d prim \<Rightarrow> 'd \<Rightarrow> fl \<Rightarrow> error option \<times> 'd prim" where
  "fill_double (Bag q e vs) datum weight =
     (if Fin 0 < weight then
        (case call q datum of
           Inl err \<Rightarrow> (Some err, Bag q e vs)
         | Inr v \<Rightarrow>
            (case Bag_key_double v of
               None \<Rightarrow> (Some TypeError, Bag q e vs)
             | Some k \<Rightarrow> (None, Bag q (e + weight) (dict_add k weight vs))))
      else (None, Bag q e vs))"
| "fill_double (Deviate q e m s) datum weight =
     (if Fin 0 < weight then
        (case call q datum of
           Inl err \<Rightarrow> (Some err, Deviate q e m s)
         | Inr v \<Rightarrow>
            (case as_real v of
               None \<Rightarrow> (Some TypeError, Deviate q e m s)
             | Some x \<Rightarrow>
                (let e' = e + weight in
                 if isnan m then (None, Deviate q e' NaN NaN)
                 else if too_large x then (Some OverflowError, Deviate q e' m s)
                 else if isnan x then (None, Deviate q e' NaN NaN)
                 else if isinf m \<or> isinf x then
                   (let m1 = (if isinf m \<and> isinf x \<and> m * x < Fin 0 then NaN
                              else if isinf x then x else m);
                        m2 = (if isinf e' \<or> isnan e' then NaN else m1)
                    in (None, Deviate q e' m2 NaN))
                 else if e' = Fin 0 then (Some ZeroDivisionError, Deviate q e' m s)
                 else
                   (let delta = x - m;
                        shift = delta * weight / e';
                        m' = m + shift
                    in (None, Deviate q e' m' (s + weight * delta * (x - m')))))))
      else (None, Deviate q e m s))"
| "fill_double (Fraction q e n d) datum weight =
     (case call q datum of
        Inl err \<Rightarrow> (Some err, Fraction q e n d)
      | Inr v \<Rightarrow>
         (case as_real v of
            None \<Rightarrow> (Some TypeError, Fraction q e n d)
          | Some x \<Rightarrow>
             (if too_large x then (Some OverflowError, Fraction q e n d)
              else
                (let w = double_mult x weight in
                 case (if Fin 0 < weight then fill_double d datum weight else (None, d)) of
                   (Some err, d') \<Rightarrow> (Some err, Fraction q e n d')
                 | (None, d') \<Rightarrow>
                    (case (if Fin 0 < w then fill_double n datum w else (None, n)) of
                       (Some err, n') \<Rightarrow> (Some err, Fraction q e n' d')
                     | (None, n') \<Rightarrow> (None, Fraction q (e + weight) n' d'))))))"
| "fill_double (Select q e c) datum weight =
     (case call q datum of
        Inl err \<Rightarrow> (Some err, Select q e c)
      | Inr v \<Rightarrow>
         (case as_real v of
            None \<Rightarrow> (Some TypeError, Select q e c)
          | Some x \<Rightarrow>
             (if too_large x then (Some OverflowError, Select q e c)
              else
                (let w = double_mult x weight in
                 if Fin 0 < w then
                   (case fill_double c datum w of
                      (Some err, c') \<Rightarrow> (Some err, Select q e c')
                    | (None, c') \<Rightarrow> (None, Select q (e + weight) c'))
                 else (None, Select q (e + weight) c)))))"

subsection \<open>Equality\<close>

text \<open>
  Python's \<open>sorted\<close> on the items of a Bag orders them by key (the keys of a
  dictionary differ, so the weights never decide). The order of the keys is taken
  through a rank: numbers before strings before tuples, as Python 2 compares values of
  different types; floats by value, strings and tuples lexicographically.
\<close>

fun fl_rank :: "fl \<Rightarrow> nat \<times> rat" where
  "fl_rank NInf = (0, 0)"
| "fl_rank (Fin r) = (1, r)"
| "fl_rank PInf = (2, 0)"
| "fl_rank NaN = (3, 0)"

fun key_rank :: "bkey \<Rightarrow> nat \<times> (nat \<times> rat) list \<times> string" where
  "key_rank (KNum x) = (0, [fl_rank x], [])"
| "key_rank (KStr s) = (1, [], s)"
| "key_rank (KTup xs) = (2, map fl_rank xs, [])"

text \<open>\<open>sorted(x for x in self.values.items() if x[0] != "nan")\<close>\<close>

definition sorted_items :: "(bkey \<times> fl) list \<Rightarrow> (bkey \<times> fl) list" where
  "sorted_items vs = sort_key (\<lambda>(k, w). key_rank k) (filter (\<lambda>(k, w). k \<noteq> KNum NaN) vs)"

text \<open>
  The loop of \<open>Bag.__eq__\<close> over the zipped items: keys of one kind are compared with
  \<open>numeq\<close> (strings with \<open>!=\<close>), then the weights; the weight is absent only in the
  item \<open>("nan", None)\<close> that is appended when the Bag has no NaN key. Two tuples are
  compared element by element, and only where both elements are \<open>numbers.Real\<close>: a NaN
  element is the string \<open>"nan"\<close>, so a tuple key that holds one is equal to no key,
  itself included.
\<close>

fun key_eq :: "rat \<Rightarrow> rat \<Rightarrow> bkey \<Rightarrow> bkey \<Rightarrow> bool" where
  "key_eq rtol atol (KStr a) (KStr b) = (a = b)"
| "key_eq rtol atol (KNum a) (KNum b) = numeq rtol atol a b"
| "key_eq rtol atol (KTup xs) (KTup ys) =
     list_all2 (\<lambda>a b. \<not> isnan a \<and> \<not> isnan b \<and> numeq rtol atol a b) xs ys"
| "key_eq rtol atol _ _ = False"

fun weight_eq :: "rat \<Rightarrow> rat \<Rightarrow> fl option \<Rightarrow> fl option \<Rightarrow> bool" where
  "weight_eq rtol atol None None = True"
| "weight_eq rtol atol (Some a) (Some b) = numeq rtol atol a b"
| "weight_eq rtol atol _ _ = False"

definition eq_items :: "(bkey \<times> fl) list \<Rightarrow> (bkey \<times> fl option) list" where
  "eq_items vs = map (\<lambda>(k, w). (k, Some w)) (sorted_items vs) @ [(KNum NaN, map_of vs (KNum NaN))]"

definition Bag_values_eq :: "rat \<Rightarrow> rat \<Rightarrow> (bkey \<times> fl) list \<Rightarrow> (bkey \<times> fl) list \<Rightarrow> bool" where
  "Bag_values_eq rtol atol vs vs' =
     list_all (\<lambda>((k, w), (k', w')). key_eq rtol atol k k' \<and> weight_eq rtol atol w w')
       (zip (eq_items vs) (eq_items vs'))"

text \<open>
  \<open>other.values\<close>, which \<open>Bag.__eq__\<close> reads before it tests the class of \<open>other\<close>:
  a Deviate or a Fraction has no such attribute, and \<open>Select.__getattr__\<close> passes the
  search on to its cut.
\<close>

fun values_attr :: "'d prim \<Rightarrow> error + (bkey \<times> fl) list" where
  "values_attr (Bag q e vs) = Inr vs"
| "values_attr (Select q e c) = (case values_attr c of Inl err \<Rightarrow> Inl KeyError | Inr vs \<Rightarrow> Inr vs)"
| "values_attr _ = Inl AttributeError"

text \<open>
  \<open>__eq__\<close> with the two tolerances of \<open>numeq\<close>. \<open>Select.__eq__\<close> compares
  \<open>entries\<close> and the cut and nothing else.
\<close>

fun eq :: "rat \<Rightarrow> rat \<Rightarrow> 'd prim \<Rightarrow> 'd prim \<Rightarrow> error + bool" where
  "eq rtol atol (Bag q e vs) other =
     (case values_attr other of
        Inl err \<Rightarrow> Inl err
      | Inr vs' \<Rightarrow>
         if length vs \<noteq> length vs' then Inr False
         else if \<not> Bag_values_eq rtol atol vs vs' then Inr False
         else Inr (case other of
                     Bag q' e' vs'' \<Rightarrow> q = q' \<and> numeq rtol atol e e'
                   | _ \<Rightarrow> False))"
| "eq rtol atol (Deviate q e m s) (Deviate q' e' m' s') =
     Inr (q = q' \<and> numeq rtol atol e e' \<and> numeq rtol atol m m'
          \<and> numeq rtol atol (variance (Deviate q e m s)) (variance (Deviate q' e' m' s')))"
| "eq rtol atol (Deviate q e m s) _ = Inr False"
| "eq rtol atol (Fraction q e n d) (Fraction q' e' n' d') =
     (if \<not> numeq rtol atol e e' then Inr False
      else if q \<noteq> q' then Inr False
      else (case eq rtol atol n n' of
              Inl err \<Rightarrow> Inl err
            | Inr b \<Rightarrow> if \<not> b then Inr False else eq rtol atol d d'))"
| "eq rtol atol (Fraction q e n d) _ = Inr False"
| "eq rtol atol (Select q e c) (Select q' e' c') =
     (if \<not> numeq rtol atol e e' then Inr False else eq rtol atol c c')"
| "eq rtol atol (Select q e c) _ = Inr False"

subsection \<open>The wire format\<close>

text \<open>
  Modelled from the spec: \<open>floatToJson\<close>, \<open>rangeToJson\<close>, \<open>maybeAdd\<close> and \<open>hasKeys\<close>
  of \<open>histogrammar.util\<close> are not among the sources. The spec: floats serialize as bare
  numbers except NaN and the infinities, which serialize as the strings \<open>"nan"\<close>,
  \<open>"inf"\<close>, \<open>"-inf"\<close>; a Bag key is written as a number, a string or a list of numbers;
  the optional \<open>"name"\<close> and \<open>"sub:name"\<close> are written only when present; a fragment
  must have its required keys and no key beyond the optional ones.
\<close>

fun floatToJson :: "fl \<Rightarrow> pyval" where
  "floatToJson NaN = PStr ''nan''"
| "floatToJson PInf = PStr ''inf''"
| "floatToJson NInf = PStr ''-inf''"
| "floatToJson (Fin r) = PNum (Fin r)"

fun rangeToJson :: "bkey \<Rightarrow> pyval" where
  "rangeToJson (KStr s) = PStr s"
| "rangeToJson (KTup xs) = PList (map floatToJson xs)"
| "rangeToJson (KNum x) = floatToJson x"

definition maybeAdd :: "(string \<times> pyval) list \<Rightarrow> string \<Rightarrow> string option \<Rightarrow> (string \<times> pyval) list" where
  "maybeAdd kvs k v = (case v of None \<Rightarrow> kvs | Some s \<Rightarrow> kvs @ [(k, PStr s)])"

definition hasKeys :: "string list \<Rightarrow> string list \<Rightarrow> string list \<Rightarrow> bool" where
  "hasKeys ks required optional =
     (list_all (\<lambda>k. k \<in> set ks) required
      \<and> list_all (\<lambda>k. k \<in> set required \<or> k \<in> set optional) ks)"

text \<open>
  Modelled from the spec: the \<open>name\<close> of a primitive is its registered type tag, and the
  registry (\<open>Factory.registered\<close> of \<open>histogrammar.defs\<close>, not among the sources) maps
  the tags to the factories. Of the registered classes the four under study are
  modelled; a tag outside them is a missing key here.
\<close>

fun class_name :: "'d prim \<Rightarrow> string" where
  "class_name (Bag q e vs) = ''Bag''"
| "class_name (Deviate q e m s) = ''Deviate''"
| "class_name (Fraction q e n d) = ''Fraction''"
| "class_name (Select q e c) = ''Select''"

definition registered :: "string \<Rightarrow> bool" where
  "registered t = (t = ''Bag'' \<or> t = ''Deviate'' \<or> t = ''Fraction'' \<or> t = ''Select'')"

text \<open>
  \<open>aslist\<close> of \<open>Bag.toJsonFragment\<close>: the sorted items without the NaN key, then the
  item of the NaN key if there is one.
\<close>

definition json_items :: "(bkey \<times> fl) list \<Rightarrow> (bkey \<times> fl) list" where
  "json_items vs =
     sorted_items vs @ (case map_of vs (KNum NaN) of None \<Rightarrow> [] | Some n \<Rightarrow> [(KNum NaN, n)])"

fun toJsonFragment :: "'d prim \<Rightarrow> bool \<Rightarrow> pyval" where
  "toJsonFragment (Bag q e vs) suppressName =
     PDict (maybeAdd
       [(''entries'', floatToJson e),
        (''values'', PList (map (\<lambda>(v, n). PDict [(''w'', floatToJson n), (''v'', rangeToJson v)])
                              (json_items vs)))]
       ''name'' (if suppressName then None else name q))"
| "toJsonFragment (Deviate q e m s) suppressName =
     PDict (maybeAdd
       [(''entries'', floatToJson e),
        (''mean'', floatToJson m),
        (''variance'', floatToJson (variance (Deviate q e m s)))]
       ''name'' (if suppressName then None else name q))"
| "toJsonFragment (Fraction q e n d) suppressName =
     PDict (maybeAdd (maybeAdd
       [(''entries'', floatToJson e),
        (''type'', PStr (class_name n)),
        (''numerator'', toJsonFragment n True),
        (''denominator'', toJsonFragment d True)]
       ''name'' (if suppressName then None else name q))
       ''sub:name'' (name (quantity n)))"
| "toJsonFragment (Select q e c) suppressName =
     PDict (maybeAdd
       [(''entries'', floatToJson e),
        (''type'', PStr (class_name c)),
        (''data'', toJsonFragment c False)]
       ''name'' (if suppressName then None else name q))"

text \<open>
  The tests of the readers: \<open>x in ("nan", "inf", "-inf") or isinstance(x, numbers.Real)\<close>
  in Bag and Deviate, \<open>isinstance(x, (int, long, float))\<close> in Fraction and Select, and
  Python's \<open>float(x)\<close> on a value that passed.
\<close>

fun is_special_or_real :: "pyval \<Rightarrow> bool" where
  "is_special_or_real (PNum x) = True"
| "is_special_or_real (PBool b) = True"
| "is_special_or_real (PStr s) = (s = ''nan'' \<or> s = ''inf'' \<or> s = ''-inf'')"
| "is_special_or_real _ = False"

fun is_number :: "pyval \<Rightarrow> bool" where
  "is_number (PNum x) = True"
| "is_number (PBool b) = True"
| "is_number _ = False"

fun py_float :: "pyval \<Rightarrow> error + fl" where
  "py_float (PNum x) = Inr x"
| "py_float (PBool b) = Inr (Fin (if b then 1 else 0))"
| "py_float (PStr s) =
     (if s = ''nan'' then Inr NaN else if s = ''inf'' then Inr PInf
      else if s = ''-inf'' then Inr NInf else Inl ValueError)"
| "py_float _ = Inl TypeError"

text \<open>
  The optional names: \<open>json.get(k, None)\<close> must be a string or \<open>None\<close>.
  \<open>set_name\<close> is the assignment \<open>out.quantity.name = ...\<close>.
\<close>

definition get_name :: "(string \<times> pyval) list \<Rightarrow> string \<Rightarrow> error + string option" where
  "get_name kvs k =
     (case map_of kvs k of
        None \<Rightarrow> Inr None
      | Some PNone \<Rightarrow> Inr None
      | Some (PStr s) \<Rightarrow> Inr (Some s)
      | Some _ \<Rightarrow> Inl JsonFormatException)"

definition set_name :: "'d prim \<Rightarrow> string option \<Rightarrow> 'd prim" where
  "set_name p n =
     (case p of
        Bag q e vs \<Rightarrow> Bag (q\<lparr>name := n\<rparr>) e vs
      | Deviate q e m s \<Rightarrow> Deviate (q\<lparr>name := n\<rparr>) e m s
      | Fraction q e nu d \<Rightarrow> Fraction (q\<lparr>name := n\<rparr>) e nu d
      | Select q e c \<Rightarrow> Select (q\<lparr>name := n\<rparr>) e c)"

text \<open>
  The past-tense constructors. Their arguments are floats and containers by type, so of
  the checks of \<open>ed\<close> the one of the sign of \<open>entries\<close> remains; \<open>Bag.ed\<close> reads
  \<open>values.items()\<close> when \<open>values\<close> is no dictionary, which fails on \<open>None\<close>.
  \<open>Fraction.build\<close> first adds the two children "to check for compatibility".
\<close>

definition Deviate_ed :: "fl \<Rightarrow> fl \<Rightarrow> fl \<Rightarrow> error + 'd prim" where
  "Deviate_ed e m v =
     (if e < Fin 0 then Inl ValueError
      else Inr (Deviate (serializable None) e m (v * e)))"

definition Bag_ed :: "fl \<Rightarrow> (bkey \<times> fl) list option \<Rightarrow> error + 'd prim" where
  "Bag_ed e vs =
     (case vs of
        None \<Rightarrow> Inl AttributeError
      | Some vs' \<Rightarrow> if e < Fin 0 then Inl ValueError else Inr (Bag (serializable None) e vs'))"

definition Select_ed :: "fl \<Rightarrow> 'd prim \<Rightarrow> error + 'd prim" where
  "Select_ed e c = (if e < Fin 0 then Inl ValueError else Inr (Select (serializable None) e c))"

definition Fraction_ed :: "fl \<Rightarrow> 'd prim \<Rightarrow> 'd prim \<Rightarrow> error + 'd prim" where
  "Fraction_ed e n d =
     (if e < Fin 0 then Inl ValueError else Inr (Fraction (serializable None) e n d))"

definition Fraction_build :: "'d prim \<Rightarrow> 'd prim \<Rightarrow> error + 'd prim" where
  "Fraction_build n d =
     (case add n d of Inl err \<Rightarrow> Inl err | Inr s \<Rightarrow> Fraction_ed (entries d) n d)"

text \<open>\<open>values[v] = n\<close> on a dictionary kept as a list of items.\<close>

fun dict_set :: "'k \<Rightarrow> 'v \<Rightarrow> ('k \<times> 'v) list \<Rightarrow> ('k \<times> 'v) list" where
  "dict_set k v [] = [(k, v)]"
| "dict_set k v ((k', v') # kvs) =
     (if k = k' then (k', v) # kvs else (k', v') # dict_set k v kvs)"

text \<open>
  The loop of \<open>Bag.fromJsonFragment\<close> over \<open>json["values"]\<close>: each item is a
  dictionary with exactly the keys \<open>"w"\<close> and \<open>"v"\<close>.
\<close>

fun Bag_json_key :: "pyval \<Rightarrow> error + bkey" where
  "Bag_json_key (PStr s) =
     (if is_special_or_real (PStr s) then
        (case floatOrNan (PStr s) of None \<Rightarrow> Inl TypeError | Some x \<Rightarrow> Inr (KNum x))
      else Inr (KStr s))"
| "Bag_json_key (PList ds) =
     (if list_all is_special_or_real ds then
        (case those (map floatOrNan ds) of None \<Rightarrow> Inl TypeError | Some xs \<Rightarrow> Inr (KTup xs))
      else Inl JsonFormatException)"
| "Bag_json_key v =
     (if is_special_or_real v then
        (case floatOrNan v of None \<Rightarrow> Inl TypeError | Some x \<Rightarrow> Inr (KNum x))
      else Inl JsonFormatException)"

fun Bag_json_item :: "pyval \<Rightarrow> error + (bkey \<times> fl)" where
  "Bag_json_item (PDict nv) =
     (if hasKeys (map fst nv) [''w'', ''v''] [] then
        (case (map_of nv ''w'', map_of nv ''v'') of
           (Some jw, Some jv) \<Rightarrow>
             (if is_special_or_real jw then
                (case py_float jw of
                   Inl err \<Rightarrow> Inl err
                 | Inr n \<Rightarrow>
                    (case Bag_json_key jv of
                       Inl err \<Rightarrow> Inl err
                     | Inr k \<Rightarrow> Inr (k, n)))
              else Inl JsonFormatException)
         | _ \<Rightarrow> Inl KeyError)
      else Inl JsonFormatException)"
| "Bag_json_item _ = Inl JsonFormatException"

fun Bag_json_values :: "pyval list \<Rightarrow> (bkey \<times> fl) list \<Rightarrow> error + (bkey \<times> fl) list" where
  "Bag_json_values [] acc = Inr acc"
| "Bag_json_values (nv # rest) acc =
     (case Bag_json_item nv of
        Inl err \<Rightarrow> Inl err
      | Inr (k, n) \<Rightarrow> Bag_json_values rest (dict_set k n acc))"

definition Bag_fromJsonFragment :: "pyval \<Rightarrow> string option \<Rightarrow> error + 'd prim" where
  "Bag_fromJsonFragment json nameFromParent =
     (case json of
        PDict kvs \<Rightarrow>
          (if hasKeys (map fst kvs) [''entries'', ''values''] [''name''] then
             (case (map_of kvs ''entries'', map_of kvs ''values'') of
                (Some je, Some jv) \<Rightarrow>
                  (if is_special_or_real je then
                     (case get_name kvs ''name'' of
                        Inl err \<Rightarrow> Inl err
                      | Inr nm \<Rightarrow>
                         (case (case jv of
                                  PNone \<Rightarrow> Inr None
                                | PList nvs \<Rightarrow> map_sum id Some (Bag_json_values nvs [])
                                | _ \<Rightarrow> Inl JsonFormatException) of
                            Inl err \<Rightarrow> Inl err
                          | Inr vs \<Rightarrow>
                             (case py_float je of
                                Inl err \<Rightarrow> Inl err
                              | Inr e \<Rightarrow>
                                 (case Bag_ed e vs of
                                    Inl err \<Rightarrow> Inl err
                                  | Inr out \<Rightarrow>
                                     Inr (set_name out (case nm of None \<Rightarrow> nameFromParent | Some s \<Rightarrow> Some s))))))
                   else Inl JsonFormatException)
              | _ \<Rightarrow> Inl KeyError)
           else Inl JsonFormatException)
      | _ \<Rightarrow> Inl JsonFormatException)"

definition Deviate_fromJsonFragment :: "pyval \<Rightarrow> string option \<Rightarrow> error + 'd prim" where
  "Deviate_fromJsonFragment json nameFromParent =
     (case json of
        PDict kvs \<Rightarrow>
          (if hasKeys (map fst kvs) [''entries'', ''mean'', ''variance''] [''name''] then
             (case (map_of kvs ''entries'', map_of kvs ''mean'', map_of kvs ''variance'') of
                (Some je, Some jm, Some jv) \<Rightarrow>
                  (if \<not> is_special_or_real je then Inl JsonFormatException
                   else case py_float je of
                     Inl err \<Rightarrow> Inl err
                   | Inr e \<Rightarrow>
                      (case get_name kvs ''name'' of
                         Inl err \<Rightarrow> Inl err
                       | Inr nm \<Rightarrow>
                          (if \<not> is_special_or_real jm then Inl JsonFormatException
                           else case py_float jm of
                             Inl err \<Rightarrow> Inl err
                           | Inr m \<Rightarrow>
                              (if \<not> is_special_or_real jv then Inl JsonFormatException
                               else case py_float jv of
                                 Inl err \<Rightarrow> Inl err
                               | Inr v \<Rightarrow>
                                  (case Deviate_ed e m v of
                                     Inl err \<Rightarrow> Inl err
                                   | Inr out \<Rightarrow>
                                      Inr (set_name out (case nm of None \<Rightarrow> nameFromParent | Some s \<Rightarrow> Some s)))))))
              | _ \<Rightarrow> Inl KeyError)
           else Inl JsonFormatException)
      | _ \<Rightarrow> Inl JsonFormatException)"

lemma pyval_size_map_of:
  "map_of kvs k = Some v \<Longrightarrow> size (v::pyval) < size (PDict kvs)"
  by (induction kvs) (auto split: if_splits)

text \<open>
  \<open>factory.fromJsonFragment(json, nameFromParent)\<close>, the factory given by its tag.
  Fraction reads both children with the factory named by \<open>"type"\<close> and hands them to
  \<open>Fraction.ed\<close>; Select does the same with its one child.
\<close>

function (sequential) fromJsonFragment :: "string \<Rightarrow> pyval \<Rightarrow> string option \<Rightarrow> error + 'd prim" where
  "fromJsonFragment tag (PDict kvs) nameFromParent =
     (if tag = ''Bag'' then Bag_fromJsonFragment (PDict kvs) nameFromParent
      else if tag = ''Deviate'' then Deviate_fromJsonFragment (PDict kvs) nameFromParent
      else if tag = ''Fraction'' then
        (if hasKeys (map fst kvs) [''entries'', ''type'', ''numerator'', ''denominator'']
              [''name'', ''sub:name''] then
           (case (map_of kvs ''entries'', map_of kvs ''type'',
                  map_of kvs ''numerator'', map_of kvs ''denominator'') of
              (Some je, Some jt, Some jn, Some jd) \<Rightarrow>
                (if \<not> is_number je then Inl JsonFormatException
                 else case py_float je of
                   Inl err \<Rightarrow> Inl err
                 | Inr e \<Rightarrow>
                    (case get_name kvs ''name'' of
                       Inl err \<Rightarrow> Inl err
                     | Inr nm \<Rightarrow>
                        (case jt of
                           PStr t \<Rightarrow>
                             (if \<not> registered t then Inl KeyError
                              else case get_name kvs ''sub:name'' of
                                Inl err \<Rightarrow> Inl err
                              | Inr subName \<Rightarrow>
                                 (case fromJsonFragment t jn subName of
                                    Inl err \<Rightarrow> Inl err
                                  | Inr n \<Rightarrow>
                                     (case fromJsonFragment t jd subName of
                                        Inl err \<Rightarrow> Inl err
                                      | Inr d \<Rightarrow>
                                         (case Fraction_ed e n d of
                                            Inl err \<Rightarrow> Inl err
                                          | Inr out \<Rightarrow>
                                             Inr (set_name out
                                               (case nm of None \<Rightarrow> nameFromParent | Some s \<Rightarrow> Some s))))))
                         | _ \<Rightarrow> Inl JsonFormatException)))
            | _ \<Rightarrow> Inl KeyError)
         else Inl JsonFormatException)
      else if tag = ''Select'' then
        (if hasKeys (map fst kvs) [''entries'', ''type'', ''data''] [''name''] then
           (case (map_of kvs ''entries'', map_of kvs ''type'', map_of kvs ''data'') of
              (Some je, Some jt, Some jdata) \<Rightarrow>
                (if \<not> is_number je then Inl JsonFormatException
                 else case py_float je of
                   Inl err \<Rightarrow> Inl err
                 | Inr e \<Rightarrow>
                    (case get_name kvs ''name'' of
                       Inl err \<Rightarrow> Inl err
                     | Inr nm \<Rightarrow>
                        (case jt of
                           PStr t \<Rightarrow>
                             (if \<not> registered t then Inl KeyError
                              else case fromJsonFragment t jdata None of
                                Inl err \<Rightarrow> Inl err
                              | Inr c \<Rightarrow>
                                 (case Select_ed e c of
                                    Inl err \<Rightarrow> Inl err
                                  | Inr out \<Rightarrow>
                                     Inr (set_name out
                                       (case nm of None \<Rightarrow> nameFromParent | Some s \<Rightarrow> Some s))))
                         | _ \<Rightarrow> Inl JsonFormatException)))
            | _ \<Rightarrow> Inl KeyError)
         else Inl JsonFormatException)
      else Inl KeyError)"
| "fromJsonFragment tag json nameFromParent =
     (if registered tag then Inl JsonFormatException else Inl KeyError)"
  by pat_completeness auto
termination
  by (relation "measure (\<lambda>(tag, json, n). size json)") (auto dest: pyval_size_map_of[OF sym])

text \<open>
  Modelled from the spec: \<open>toJson\<close> and \<open>Factory.fromJson\<close> of \<open>histogrammar.defs\<close>
  are not among the sources. A top-level document wraps a fragment as
  \<open>{"type": name, "data": fragment}\<close> (the version is outside the core), and reading it
  requires that the type matches a registered factory.
\<close>

definition toJson :: "'d prim \<Rightarrow> pyval" where
  "toJson p = PDict [(''type'', PStr (class_name p)), (''data'', toJsonFragment p False)]"

definition fromJson :: "pyval \<Rightarrow> error + 'd prim" where
  "fromJson doc =
     (case doc of
        PDict kvs \<Rightarrow>
          (case (map_of kvs ''type'', map_of kvs ''data'') of
             (Some (PStr t), Some d) \<Rightarrow>
               if registered t then fromJsonFragment t d None else Inl KeyError
           | _ \<Rightarrow> Inl JsonFormatException)
      | _ \<Rightarrow> Inl JsonFormatException)"

subsection \<open>Predicates of the statements\<close>

text \<open>
  The selector's result on a datum is not above one (a boolean, a number up to 1, or
  NaN), or the selector raises or returns no number.
\<close>

definition not_above_one :: "'d quantity \<Rightarrow> 'd \<Rightarrow> bool" where
  "not_above_one q datum =
     (case call q datum of
        Inl err \<Rightarrow> True
      | Inr v \<Rightarrow> (case as_real v of None \<Rightarrow> True | Some x \<Rightarrow> \<not> Fin 1 < x))"

text \<open>
  The Select states reached from a zero state by fills with non-negative weight whose
  selector result is not above one (a fill that raises included, with the state it
  leaves) and by combines.
\<close>

inductive reach_Select :: "'d prim \<Rightarrow> bool" where
  reach_zero: "reach_Select (zero (Select q e c))"
| reach_fill: "reach_Select p \<Longrightarrow> Fin 0 \<le> weight \<Longrightarrow> not_above_one (quantity p) datum
     \<Longrightarrow> reach_Select (snd (fill p datum weight))"
| reach_add: "reach_Select p \<Longrightarrow> reach_Select p' \<Longrightarrow> add p p' = Inr r \<Longrightarrow> reach_Select r"

definition cut_inv :: "'d prim \<Rightarrow> bool" where
  "cut_inv p = (\<exists>q e c. p = Select q e c \<and> Fin 0 \<le> entries c \<and> entries c \<le> e)"

text \<open>Two trees of one shape: the same classes with the same quantities, node by node.\<close>

fun same_shape :: "'d prim \<Rightarrow> 'd prim \<Rightarrow> bool" where
  "same_shape (Bag q e vs) (Bag q' e' vs') = (q = q')"
| "same_shape (Deviate q e m s) (Deviate q' e' m' s') = (q = q')"
| "same_shape (Fraction q e n d) (Fraction q' e' n' d') =
     (q = q' \<and> same_shape n n' \<and> same_shape d d')"
| "same_shape (Select q e c) (Select q' e' c') = (q = q' \<and> same_shape c c')"
| "same_shape _ _ = False"

text \<open>
  What the constructors of the library establish and \<open>zero\<close>, \<open>fill\<close> and \<open>+\<close> keep:
  a Deviate has no negative \<open>entries\<close> (\<open>ed\<close> refuses them, \<open>fill\<close> adds positive
  weights only), and the numerator and denominator of a Fraction that has an extractor
  are of one shape (\<open>__init__\<close> makes both by \<open>value.zero()\<close>).
\<close>

fun well_formed :: "'d prim \<Rightarrow> bool" where
  "well_formed (Bag q e vs) = True"
| "well_formed (Deviate q e m s) = (\<not> e < Fin 0)"
| "well_formed (Fraction q e n d) =
     ((expr q \<noteq> None \<longrightarrow> same_shape n d) \<and> well_formed n \<and> well_formed d)"
| "well_formed (Select q e c) = well_formed c"

text \<open>A present-tense tree: every node has an extractor.\<close>

fun present :: "'d prim \<Rightarrow> bool" where
  "present (Bag q e vs) = (expr q \<noteq> None)"
| "present (Deviate q e m s) = (expr q \<noteq> None)"
| "present (Fraction q e n d) = (expr q \<noteq> None \<and> present n \<and> present d)"
| "present (Select q e c) = (expr q \<noteq> None \<and> present c)"

text \<open>Whether a fill of the tree with a positive weight raises on the datum.\<close>

fun raises :: "'d prim \<Rightarrow> 'd \<Rightarrow> bool" where
  "raises (Bag q e vs) datum =
     (case call q datum of Inl err \<Rightarrow> True | Inr v \<Rightarrow> Bag_key v = None)"
| "raises (Deviate q e m s) datum =
     (case call q datum of Inl err \<Rightarrow> True | Inr v \<Rightarrow> as_real v = None)"
| "raises (Fraction q e n d) datum =
     (case call q datum of
        Inl err \<Rightarrow> True
      | Inr v \<Rightarrow>
         (case as_real v of
            None \<Rightarrow> True
          | Some x \<Rightarrow> raises d datum \<or> (Fin 0 < x \<and> raises n datum)))"
| "raises (Select q e c) datum =
     (case call q datum of
        Inl err \<Rightarrow> True
      | Inr v \<Rightarrow> (case as_real v of None \<Rightarrow> True | Some x \<Rightarrow> Fin 0 < x \<and> raises c datum))"

text \<open>The extractor of the root returns a value of the wrong type on the datum.\<close>

fun ill_typed :: "'d prim \<Rightarrow> 'd \<Rightarrow> bool" where
  "ill_typed (Bag q e vs) datum =
     (case call q datum of Inl err \<Rightarrow> False | Inr v \<Rightarrow> Bag_key v = None)"
| "ill_typed (Deviate q e m s) datum =
     (case call q datum of Inl err \<Rightarrow> False | Inr v \<Rightarrow> as_real v = None)"
| "ill_typed (Fraction q e n d) datum =
     (case call q datum of Inl err \<Rightarrow> False | Inr v \<Rightarrow> as_real v = None)"
| "ill_typed (Select q e c) datum =
     (case call q datum of Inl err \<Rightarrow> False | Inr v \<Rightarrow> as_real v = None)"

text \<open>Bag and Deviate call their extractor only under a positive weight.\<close>

fun calls_extractor :: "'d prim \<Rightarrow> fl \<Rightarrow> bool" where
  "calls_extractor (Bag q e vs) w = (Fin 0 < w)"
| "calls_extractor (Deviate q e m s) w = (Fin 0 < w)"
| "calls_extractor (Fraction q e n d) w = True"
| "calls_extractor (Select q e c) w = True"

text \<open>
  The keys that \<open>Bag.__eq__\<close> finds equal to themselves: every key but a tuple that
  holds a NaN.
\<close>

fun comparable_key :: "bkey \<Rightarrow> bool" where
  "comparable_key (KTup xs) = list_all (\<lambda>x. \<not> isnan x) xs"
| "comparable_key (KStr s) = True"
| "comparable_key (KNum x) = True"

text \<open>
  The trees on which adding a zero changes nothing under the tolerances \<open>rtol\<close> and
  \<open>atol\<close>. No Fraction node. A Bag: its items have distinct keys (every dictionary
  has) and no tuple key holds a NaN. A Deviate with a finite mean \<open>m\<close>: its entries are
  finite, and when they are zero, where the sum has the mean \<open>m / 2\<close>, that is within
  tolerance of \<open>m\<close> (as it is for \<open>m = 0\<close>). A Deviate with an infinite or NaN mean,
  whose sum has the variance NaN: its own variance is NaN, and its mean is NaN when its
  entries are not finite.
\<close>

fun zero_neutral :: "rat \<Rightarrow> rat \<Rightarrow> 'd prim \<Rightarrow> bool" where
  "zero_neutral rtol atol (Bag q e vs) =
     (distinct (map fst vs) \<and> list_all (\<lambda>(k, n). comparable_key k) vs)"
| "zero_neutral rtol atol (Deviate q e m s) =
     (case m of
        Fin a \<Rightarrow> isfin e \<and> (e = Fin 0 \<longrightarrow> \<bar>a\<bar> / 2 \<le> max (rtol * \<bar>a\<bar>) atol)
      | _ \<Rightarrow> if isfin e then s = NaN else m = NaN \<and> (e = NaN \<or> \<not> isfin s))"
| "zero_neutral rtol atol (Fraction q e n d) = False"
| "zero_neutral rtol atol (Select q e c) = zero_neutral rtol atol c"

text \<open>
  The past-tense form of a tree: the same state with every extractor removed and the
  names kept. A past-tense tree is its own past-tense form.
\<close>

definition freeze :: "'d quantity \<Rightarrow> 'd quantity" where
  "freeze q = \<lparr>expr = None, name = name q\<rparr>"

fun frozen :: "'d prim \<Rightarrow> 'd prim" where
  "frozen (Bag q e vs) = Bag (freeze q) e vs"
| "frozen (Deviate q e m s) = Deviate (freeze q) e m s"
| "frozen (Fraction q e n d) = Fraction (freeze q) e (frozen n) (frozen d)"
| "frozen (Select q e c) = Select (freeze q) e (frozen c)"

text \<open>
  What reading a written tree yields: the past-tense form, with the
  \<open>varianceTimesEntries\<close> of a Deviate recomputed as \<open>variance * entries\<close> and the
  items of a Bag in the order they were written.
\<close>

fun reloaded :: "'d prim \<Rightarrow> 'd prim" where
  "reloaded (Bag q e vs) = Bag (freeze q) e (json_items vs)"
| "reloaded (Deviate q e m s) = Deviate (freeze q) e m (variance (Deviate q e m s) * e)"
| "reloaded (Fraction q e n d) = Fraction (freeze q) e (reloaded n) (reloaded d)"
| "reloaded (Select q e c) = Select (freeze q) e (reloaded c)"

fun past_tense :: "'d prim \<Rightarrow> bool" where
  "past_tense (Bag q e vs) = (expr q = None)"
| "past_tense (Deviate q e m s) = (expr q = None)"
| "past_tense (Fraction q e n d) = (expr q = None \<and> past_tense n \<and> past_tense d)"
| "past_tense (Select q e c) = (expr q = None \<and> past_tense c)"

text \<open>
  The trees that the wire format carries under the tolerances \<open>rtol\<close> and \<open>atol\<close>. No
  entries are negative (\<open>ed\<close> refuses them). A Bag: its items have distinct keys, a
  string key is not one of the words the reader takes for floats (\<open>"inf"\<close>, \<open>"-inf"\<close>;
  the word \<open>"nan"\<close> is the NaN key, \<open>KNum NaN\<close>, and no string key), and no tuple
  key holds a NaN. A Deviate, which is written with its variance and read with
  \<open>variance * entries\<close>: when its entries are zero, its \<open>varianceTimesEntries\<close> is NaN or
  within tolerance of zero, and when its entries are infinite, its
  \<open>varianceTimesEntries\<close> is not finite. A Fraction and a Select: the entries are
  finite, and the two children of a Fraction are of one class and carry one name.
\<close>

fun plain_key :: "bkey \<Rightarrow> bool" where
  "plain_key (KStr s) = (s \<noteq> ''nan'' \<and> s \<noteq> ''inf'' \<and> s \<noteq> ''-inf'')"
| "plain_key (KTup xs) = list_all (\<lambda>x. \<not> isnan x) xs"
| "plain_key (KNum x) = True"

fun wire_ok :: "rat \<Rightarrow> rat \<Rightarrow> 'd prim \<Rightarrow> bool" where
  "wire_ok rtol atol (Bag q e vs) =
     (\<not> e < Fin 0 \<and> distinct (map fst vs) \<and> list_all (\<lambda>(k, n). plain_key k) vs)"
| "wire_ok rtol atol (Deviate q e m s) =
     (\<not> e < Fin 0
      \<and> (e = Fin 0 \<longrightarrow> (case s of Fin b \<Rightarrow> \<bar>b\<bar> \<le> max (rtol * \<bar>b\<bar>) atol | _ \<Rightarrow> s = NaN))
      \<and> (e = PInf \<longrightarrow> \<not> isfin s))"
| "wire_ok rtol atol (Fraction q e n d) =
     (isfin e \<and> \<not> e < Fin 0 \<and> class_name d = class_name n
      \<and> name (quantity d) = name (quantity n) \<and> wire_ok rtol atol n \<and> wire_ok rtol atol d)"
| "wire_ok rtol atol (Select q e c) = (isfin e \<and> \<not> e < Fin 0 \<and> wire_ok rtol atol c)"

subsection \<open>Example trees\<close>

definition identity_q :: "rat quantity" where
  "identity_q = \<lparr>expr = Some (\<lambda>x. PNum (Fin x)), name = Some ''x''\<rparr>"

definition past_q :: "rat quantity" where
  "past_q = \<lparr>expr = None, name = None\<rparr>"

definition positive_q :: "rat quantity" where
  "positive_q = \<lparr>expr = Some (\<lambda>x. PBool (0 < x)), name = Some ''positive''\<rparr>"

definition label_q :: "rat quantity" where
  "label_q = \<lparr>expr = Some (\<lambda>x. PStr ''label''), name = Some ''label''\<rparr>"

definition anonymous_q :: "rat quantity" where
  "anonymous_q = \<lparr>expr = Some (\<lambda>x. PNum (Fin x)), name = None\<rparr>"

text \<open>Two constant selectors, \<open>2^900\<close> and \<open>2^-600\<close>.\<close>

definition scale_up_q :: "rat quantity" where
  "scale_up_q = \<lparr>expr = Some (\<lambda>x. PNum (Fin (2 ^ 900))), name = None\<rparr>"

definition scale_down_q :: "rat quantity" where
  "scale_down_q = \<lparr>expr = Some (\<lambda>x. PNum (Fin (1 / 2 ^ 600))), name = None\<rparr>"

text \<open>\<open>Fraction(positive, Deviate(x))\<close> and \<open>Select(x, Deviate(x))\<close>, freshly made.\<close>

definition ex_fraction :: "rat prim" where
  "ex_fraction =
     Fraction positive_q (Fin 0) (Deviate identity_q (Fin 0) (Fin 0) (Fin 0))
       (Deviate identity_q (Fin 0) (Fin 0) (Fin 0))"

definition ex_select :: "rat prim" where
  "ex_select = Select identity_q (Fin 0) (Deviate identity_q (Fin 0) (Fin 0) (Fin 0))"

text \<open>
  \<open>Fraction(up, Select(down, Deviate(label)))\<close>, freshly made, with the constant
  selectors \<open>up = 2^900\<close> and \<open>down = 2^-600\<close> and an extractor that returns a string.
\<close>

definition ex_underflow :: "rat prim" where
  "ex_underflow =
     Fraction scale_up_q (Fin 0)
       (Select scale_down_q (Fin 0) (Deviate label_q (Fin 0) (Fin 0) (Fin 0)))
       (Select scale_down_q (Fin 0) (Deviate label_q (Fin 0) (Fin 0) (Fin 0)))"

text \<open>
  A Fraction fragment whose children are both of type Select, the numerator holding a
  Deviate and the denominator a Bag.
\<close>

definition mismatched_items :: "(string \<times> pyval) list" where
  "mismatched_items =
     [(''entries'', PNum (Fin 0)),
      (''type'', PStr ''Select''),
      (''numerator'',
         PDict [(''entries'', PNum (Fin 0)), (''type'', PStr ''Deviate''),
                (''data'', PDict [(''entries'', PNum (Fin 0)), (''mean'', PNum (Fin 0)),
                                  (''variance'', PNum (Fin 0))])]),
      (''denominator'',
         PDict [(''entries'', PNum (Fin 0)), (''type'', PStr ''Bag''),
                (''data'', PDict [(''entries'', PNum (Fin 0)), (''values'', PList [])])])]"

section \<open>Verified properties\<close>

subsection \<open>Deviate: combining finite states\<close>

text \<open>
  On finite states with non-negative entries the combine keeps the weighted first and
  second moments additive, whichever branch chooses the mean.
\<close>

lemma add_Deviate_Fin:
  assumes "0 \<le> ca" "0 \<le> cb"
  shows "\<exists>m s. add (Deviate qa (Fin ca) (Fin ma) (Fin sa)) (Deviate qb (Fin cb) (Fin mb) (Fin sb))
            = Inr (Deviate qa (Fin (ca + cb)) (Fin m) (Fin s))
          \<and> (ca + cb) * m = ca * ma + cb * mb
          \<and> s + (ca + cb) * m * m = (sa + ca * ma * ma) + (sb + cb * mb * mb)"
proof (cases "ca + cb = 0")
  case True
  with assms have z: "ca = 0" "cb = 0" by (simp_all add: add_nonneg_eq_0_iff)
  show ?thesis using z
    by (intro exI[of _ "(ma + mb) / 2"] exI[of _ "sa + sb"]) (simp add: Let_def minus_fl_def)
next
  case False
  define m where "m = (ca * ma + cb * mb) / (ca + cb)"
  have m: "(ca + cb) * m = ca * ma + cb * mb" using False by (simp add: m_def)
  define s where "s = sa + sb + ca * ma * ma + cb * mb * mb - 2 * m * (ca * ma + cb * mb) + m * m * (ca + cb)"
  have "s + (ca + cb) * m * m = sa + sb + ca * ma * ma + cb * mb * mb - 2 * m * ((ca + cb) * m) + m * m * (ca + cb) + (ca + cb) * m * m"
    by (simp add: s_def m)
  also have "\<dots> = (sa + ca * ma * ma) + (sb + cb * mb * mb)" by (simp add: algebra_simps)
  finally have s: "s + (ca + cb) * m * m = (sa + ca * ma * ma) + (sb + cb * mb * mb)" .
  have "add (Deviate qa (Fin ca) (Fin ma) (Fin sa)) (Deviate qb (Fin cb) (Fin mb) (Fin sb))
            = Inr (Deviate qa (Fin (ca + cb)) (Fin m) (Fin s))"
    using False by (simp add: Let_def minus_fl_def m_def s_def)
  with m s show ?thesis by blast
qed

text \<open>
  C5, as the code has it. For Deviate states with finite fields and non-negative
  entries (what \<open>ed\<close> and \<open>fill\<close> allow), \<open>(A + B) + C\<close> and \<open>A + (B + C)\<close> both
  succeed and agree on the quantity, on \<open>entries\<close> and on \<open>varianceTimesEntries\<close>;
  when the three entries are not all zero the two results are equal in every field.
  The mean of three states with \<open>entries == 0\<close> is left out: there the combine
  averages the two means, which depends on the bracketing.
\<close>

theorem Deviate_add_assoc:
  assumes "0 \<le> ca" "0 \<le> cb" "0 \<le> cc"
  shows "\<exists>L R. assoc_l (Deviate qa (Fin ca) (Fin ma) (Fin sa)) (Deviate qb (Fin cb) (Fin mb) (Fin sb))
                  (Deviate qc (Fin cc) (Fin mc) (Fin sc)) = Inr L
     \<and> assoc_r (Deviate qa (Fin ca) (Fin ma) (Fin sa)) (Deviate qb (Fin cb) (Fin mb) (Fin sb))
                  (Deviate qc (Fin cc) (Fin mc) (Fin sc)) = Inr R
     \<and> quantity L = quantity R \<and> entries L = entries R
     \<and> varianceTimesEntries L = varianceTimesEntries R
     \<and> (0 < ca + cb + cc \<longrightarrow> L = R)"
proof -
  obtain mab sab where ab: "add (Deviate qa (Fin ca) (Fin ma) (Fin sa)) (Deviate qb (Fin cb) (Fin mb) (Fin sb))
            = Inr (Deviate qa (Fin (ca + cb)) (Fin mab) (Fin sab))"
     and mab: "(ca + cb) * mab = ca * ma + cb * mb"
     and sab: "sab + (ca + cb) * mab * mab = (sa + ca * ma * ma) + (sb + cb * mb * mb)"
    using add_Deviate_Fin[OF assms(1,2)] by blast
  have ab0: "0 \<le> ca + cb" using assms by simp
  obtain ml sl where l: "add (Deviate qa (Fin (ca + cb)) (Fin mab) (Fin sab)) (Deviate qc (Fin cc) (Fin mc) (Fin sc))
            = Inr (Deviate qa (Fin (ca + cb + cc)) (Fin ml) (Fin sl))"
     and ml: "(ca + cb + cc) * ml = (ca + cb) * mab + cc * mc"
     and sl: "sl + (ca + cb + cc) * ml * ml = (sab + (ca + cb) * mab * mab) + (sc + cc * mc * mc)"
    using add_Deviate_Fin[OF ab0 assms(3)] by blast
  obtain mbc sbc where bc: "add (Deviate qb (Fin cb) (Fin mb) (Fin sb)) (Deviate qc (Fin cc) (Fin mc) (Fin sc))
            = Inr (Deviate qb (Fin (cb + cc)) (Fin mbc) (Fin sbc))"
     and mbc: "(cb + cc) * mbc = cb * mb + cc * mc"
     and sbc: "sbc + (cb + cc) * mbc * mbc = (sb + cb * mb * mb) + (sc + cc * mc * mc)"
    using add_Deviate_Fin[OF assms(2,3)] by blast
  have bc0: "0 \<le> cb + cc" using assms by simp
  obtain mr sr where r: "add (Deviate qa (Fin ca) (Fin ma) (Fin sa)) (Deviate qb (Fin (cb + cc)) (Fin mbc) (Fin sbc))
            = Inr (Deviate qa (Fin (ca + (cb + cc))) (Fin mr) (Fin sr))"
     and mr: "(ca + (cb + cc)) * mr = ca * ma + (cb + cc) * mbc"
     and sr: "sr + (ca + (cb + cc)) * mr * mr = (sa + ca * ma * ma) + (sbc + (cb + cc) * mbc * mbc)"
    using add_Deviate_Fin[OF assms(1) bc0] by blast
  let ?t = "ca + cb + cc"
  have t: "ca + (cb + cc) = ?t" by simp
  have mm: "?t * ml = ?t * mr" using ml mr mab mbc by (simp add: t)
  have ss: "sl + ?t * ml * ml = sr + ?t * mr * mr" using sl sr sab sbc by (simp add: t)
  have meq: "0 < ?t \<Longrightarrow> ml = mr" using mm by simp
  have seq: "sl = sr"
  proof (cases "?t = 0")
    case True
    then show ?thesis using ss by simp
  next
    case False
    then have "ml = mr" using mm by simp
    then show ?thesis using ss by simp
  qed
  show ?thesis
    using ab l bc r meq seq by (simp add: assoc_l_def assoc_r_def t)
qed

theorem Deviate_add_assoc_witness:
  "\<exists>L R. assoc_l (Deviate identity_q (Fin 2) (Fin (3/2)) (Fin (1/2))) (Deviate identity_q (Fin 0) (Fin 0) (Fin 0))
                  (Deviate identity_q (Fin 2) (Fin (7/2)) (Fin (1/2))) = Inr L
     \<and> assoc_r (Deviate identity_q (Fin 2) (Fin (3/2)) (Fin (1/2))) (Deviate identity_q (Fin 0) (Fin 0) (Fin 0))
                  (Deviate identity_q (Fin 2) (Fin (7/2)) (Fin (1/2))) = Inr R
     \<and> quantity L = quantity R \<and> entries L = entries R
     \<and> varianceTimesEntries L = varianceTimesEntries R
     \<and> ((0::rat) < 2 + 0 + 2 \<longrightarrow> L = R)"
  by (rule Deviate_add_assoc) simp_all

text \<open>
  C5 as stated fails on states with \<open>entries == 0\<close>: with means 4, 0 and 0 the left
  bracketing gives mean 1 and the right bracketing mean 2.
\<close>

theorem Deviate_add_assoc_counterexample:
  "assoc_l (Deviate past_q (Fin 0) (Fin 4) (Fin 0)) (Deviate past_q (Fin 0) (Fin 0) (Fin 0))
           (Deviate past_q (Fin 0) (Fin 0) (Fin 0))
     = Inr (Deviate past_q (Fin 0) (Fin 1) (Fin 0))
   \<and> assoc_r (Deviate past_q (Fin 0) (Fin 4) (Fin 0)) (Deviate past_q (Fin 0) (Fin 0) (Fin 0))
           (Deviate past_q (Fin 0) (Fin 0) (Fin 0))
     = Inr (Deviate past_q (Fin 0) (Fin 2) (Fin 0))
   \<and> Deviate past_q (Fin 0) (Fin 1) (Fin 0) \<noteq> Deviate past_q (Fin 0) (Fin 2) (Fin 0)"
  by (simp add: assoc_l_def assoc_r_def Let_def minus_fl_def)

subsection \<open>Deviate: NaN poisoning\<close>

lemma fill_Deviate_nan:
  assumes "isnan m \<or> isnan x" "Fin 0 < w" "call q datum = Inr v" "as_real v = Some x"
  shows "fill (Deviate q e m s) datum w = (None, Deviate q (e + w) NaN NaN)"
  using assms by (auto simp: Let_def)

lemma variance_nan: "variance (Deviate q e m NaN) = NaN"
  by (simp add: variance_def)

text \<open>
  C6. Once the mean of a Deviate is NaN, every non-empty run of fills with positive
  weights and numeric inputs (finite or not) succeeds and leaves both \<open>mean\<close> and
  \<open>variance\<close> NaN.
\<close>

theorem Deviate_nan_poisoning:
  assumes "isnan m"
    and "xs \<noteq> []"
    and "\<forall>(x, w) \<in> set xs. Fin 0 < w \<and> (\<exists>v y. call q x = Inr v \<and> as_real v = Some y)"
  shows "\<exists>e'. fill_all (Deviate q e m s) xs = (None, Deviate q e' NaN NaN)
           \<and> mean (Deviate q e' NaN NaN) = NaN \<and> variance (Deviate q e' NaN NaN) = NaN"
  using assms
proof (induction xs arbitrary: e m s)
  case Nil
  then show ?case by simp
next
  case (Cons a xs)
  obtain x w where a: "a = (x, w)" by (cases a)
  from Cons.prems(3) a obtain v y where w: "Fin 0 < w" and c: "call q x = Inr v" and r: "as_real v = Some y"
    by auto
  have step: "fill (Deviate q e m s) x w = (None, Deviate q (e + w) NaN NaN)"
    using fill_Deviate_nan[of m y w q x v e s] Cons.prems(1) w c r by simp
  show ?case
  proof (cases "xs = []")
    case True
    then show ?thesis using step a by (simp add: variance_nan)
  next
    case False
    have "\<exists>e'. fill_all (Deviate q (e + w) NaN NaN) xs = (None, Deviate q e' NaN NaN)
           \<and> mean (Deviate q e' NaN NaN) = NaN \<and> variance (Deviate q e' NaN NaN) = NaN"
      using Cons.IH[of NaN "e + w" NaN] False Cons.prems(3) by simp
    then show ?thesis using step a by simp
  qed
qed

theorem Deviate_nan_poisoning_witness:
  "\<exists>e'. fill_all (Deviate identity_q (Fin 1) NaN NaN) [(2, Fin 1), (3, Fin (1/2))]
            = (None, Deviate identity_q e' NaN NaN)
         \<and> mean (Deviate identity_q e' NaN NaN) = NaN
         \<and> variance (Deviate identity_q e' NaN NaN) = NaN"
  by (rule Deviate_nan_poisoning) (simp_all add: call_def identity_q_def)

subsection \<open>Comparisons and sums of floats\<close>

lemma fl_pos_mult: "Fin 0 < w \<Longrightarrow> (Fin 0 < x * w) = (Fin 0 < x)"
  by (cases x; cases w) (auto simp: zero_less_mult_iff)

lemma fl_le_trans: "(a::fl) \<le> b \<Longrightarrow> b \<le> c \<Longrightarrow> a \<le> c"
  by (cases a; cases b; cases c) auto

lemma fl_add_mono: "Fin 0 \<le> a \<Longrightarrow> a \<le> b \<Longrightarrow> Fin 0 \<le> c \<Longrightarrow> c \<le> d \<Longrightarrow> a + c \<le> b + d"
  by (cases a; cases b; cases c; cases d) auto

lemma fl_add_nonneg: "Fin 0 \<le> a \<Longrightarrow> Fin 0 \<le> c \<Longrightarrow> Fin 0 \<le> a + c"
  by (cases a; cases c) auto

lemma fl_le_add: "Fin 0 \<le> a \<Longrightarrow> a \<le> b \<Longrightarrow> Fin 0 \<le> c \<Longrightarrow> a \<le> b + c"
  by (cases a; cases b; cases c) auto

lemma fl_less_le: "(a::fl) < b \<Longrightarrow> a \<le> b"
  by (cases a; cases b) auto

lemma fl_sel_le: "Fin 0 \<le> weight \<Longrightarrow> \<not> Fin 1 < x \<Longrightarrow> Fin 0 < x * weight \<Longrightarrow> x * weight \<le> weight"
  by (cases x; cases weight) (auto simp: zero_less_mult_iff split: if_splits)

lemma fl_add_pos_nonzero: "\<not> e < Fin 0 \<Longrightarrow> Fin 0 < w \<Longrightarrow> e + w \<noteq> Fin 0"
  by (cases e; cases w) auto

lemma fl_add_pos_nonneg: "\<not> e < Fin 0 \<Longrightarrow> Fin 0 < w \<Longrightarrow> \<not> e + w < Fin 0"
  by (cases e; cases w) auto

subsection \<open>How fill and + change entries\<close>

lemma fill_entries:
  assumes "Fin 0 \<le> entries c" "Fin 0 < w"
  shows "(fst (fill c datum w) \<noteq> None \<longrightarrow> entries (snd (fill c datum w)) = entries c)
       \<and> (fst (fill c datum w) = None \<longrightarrow> entries (snd (fill c datum w)) = entries c + w)"
proof (cases c)
  case (Bag q e vs)
  then show ?thesis using assms by (auto split: sum.splits option.splits)
next
  case (Deviate q e m s)
  have "e + w \<noteq> Fin 0" using assms Deviate by (cases e; cases w) auto
  then show ?thesis using assms Deviate by (auto simp: Let_def split: sum.splits option.splits)
next
  case (Fraction q e n d)
  then show ?thesis using assms by (auto simp: Let_def split: sum.splits option.splits prod.splits)
next
  case (Select q e c')
  then show ?thesis using assms by (auto simp: Let_def split: sum.splits option.splits prod.splits)
qed

lemma add_entries:
  "add c c' = Inr r \<Longrightarrow> entries r = entries c + entries c' \<or> entries r = Fin 0"
  by (cases c; cases c') (auto simp: Let_def split: sum.splits)


lemma entries_zero: "entries (zero p) = Fin 0"
  by (cases p) auto


subsection \<open>Fraction: entries of a sum\<close>

text \<open>
  C1. \<open>Fraction.__add__\<close> builds its result with \<open>Fraction(self.quantity, None)\<close>, whose
  \<open>entries\<close> is 0.0, and sets only the numerator and the denominator. Filling
  \<open>Fraction(positive, Deviate(x))\<close> once (entries 1) and a second copy twice (entries 2)
  and adding the two gives \<open>entries\<close> 0, while the denominator of the sum has 3.
\<close>

theorem Fraction_add_entries:
  "fill_all ex_fraction [(1, Fin 1)]
     = (None, Fraction positive_q (Fin 1) (Deviate identity_q (Fin 1) (Fin 1) (Fin 0))
                (Deviate identity_q (Fin 1) (Fin 1) (Fin 0)))
   \<and> fill_all ex_fraction [(2, Fin 1), (-3, Fin 1)]
     = (None, Fraction positive_q (Fin 2) (Deviate identity_q (Fin 1) (Fin 2) (Fin 0))
                (Deviate identity_q (Fin 2) (Fin (-1/2)) (Fin (25/2))))
   \<and> add (Fraction positive_q (Fin 1) (Deviate identity_q (Fin 1) (Fin 1) (Fin 0))
            (Deviate identity_q (Fin 1) (Fin 1) (Fin 0)))
          (Fraction positive_q (Fin 2) (Deviate identity_q (Fin 1) (Fin 2) (Fin 0))
            (Deviate identity_q (Fin 2) (Fin (-1/2)) (Fin (25/2))))
     = Inr (Fraction positive_q (Fin 0) (Deviate identity_q (Fin 2) (Fin (3/2)) (Fin (1/2)))
              (Deviate identity_q (Fin 3) (Fin 0) (Fin 14)))"
  by (simp add: ex_fraction_def positive_q_def identity_q_def call_def Let_def minus_fl_def)

subsection \<open>Select and Fraction: entries under any weight\<close>



subsection \<open>Select: the cut holds no more than the Select\<close>

lemma cut_inv_fill:
  assumes "cut_inv p" "Fin 0 \<le> weight" "not_above_one (quantity p) datum"
  shows "cut_inv (snd (fill p datum weight))"
proof -
  from assms(1) obtain q e c where p: "p = Select q e c" and c0: "Fin 0 \<le> entries c" and ce: "entries c \<le> e"
    by (auto simp: cut_inv_def)
  show ?thesis
  proof (cases "call q datum")
    case (Inl err)
    then show ?thesis using p c0 ce by (simp add: cut_inv_def)
  next
    case (Inr v)
    show ?thesis
    proof (cases "as_real v")
      case None
      then show ?thesis using Inr p c0 ce by (simp add: cut_inv_def)
    next
      case (Some x)
      have x1: "\<not> Fin 1 < x" using assms(3) p Inr Some by (simp add: not_above_one_def)
      show ?thesis
      proof (cases "Fin 0 < x * weight")
        case False
        have "entries c \<le> e + weight" using fl_le_add[OF c0 ce assms(2)] .
        then show ?thesis using False Inr Some p c0 by (simp add: cut_inv_def Let_def)
      next
        case True
        have wle: "x * weight \<le> weight" using fl_sel_le[OF assms(2) x1 True] .
        have w0: "Fin 0 \<le> x * weight" using True by (rule fl_less_le)
        obtain r c' where f: "fill c datum (x * weight) = (r, c')" by (cases "fill c datum (x * weight)")
        show ?thesis
        proof (cases r)
          case None
          then have "entries c' = entries c + x * weight" using fill_entries[OF c0 True, of datum] f by simp
          moreover have "entries c + x * weight \<le> e + weight" using fl_add_mono[OF c0 ce w0 wle] .
          moreover have "Fin 0 \<le> entries c + x * weight" using fl_add_nonneg[OF c0 w0] .
          ultimately show ?thesis using True Inr Some p f None by (simp add: cut_inv_def Let_def)
        next
          case (Some err)
          then have "entries c' = entries c" using fill_entries[OF c0 True, of datum] f by simp
          then show ?thesis using True Inr \<open>as_real v = Some x\<close> p f Some c0 ce by (simp add: cut_inv_def Let_def)
        qed
      qed
    qed
  qed
qed

lemma cut_inv_add:
  assumes "cut_inv p" "cut_inv p'" "add p p' = Inr r"
  shows "cut_inv r"
proof -
  from assms(1) obtain q e c where p: "p = Select q e c" and c0: "Fin 0 \<le> entries c" and ce: "entries c \<le> e"
    by (auto simp: cut_inv_def)
  from assms(2) obtain q' e' c' where p': "p' = Select q' e' c'" and c0': "Fin 0 \<le> entries c'" and ce': "entries c' \<le> e'"
    by (auto simp: cut_inv_def)
  from assms(3) p p' obtain c'' where a: "add c c' = Inr c''" and r: "r = Select q (e + e') c''"
    by (auto split: sum.splits)
  have e0: "Fin 0 \<le> e + e'" using fl_add_nonneg[OF fl_le_trans[OF c0 ce] fl_le_trans[OF c0' ce']] .
  from add_entries[OF a] show ?thesis
  proof
    assume "entries c'' = entries c + entries c'"
    then show ?thesis using r fl_add_mono[OF c0 ce c0' ce'] fl_add_nonneg[OF c0 c0'] by (simp add: cut_inv_def)
  next
    assume "entries c'' = Fin 0"
    then show ?thesis using r e0 by (simp add: cut_inv_def)
  qed
qed

text \<open>
  C4, as the code has it. The selector is a factor on the weight, so the invariant needs
  selector results that are not above one: for every Select reached from a zero state by
  fills with weights \<open>\<ge> 0\<close> whose selector results are not above one, and by combines,
  \<open>cut.entries \<le> entries\<close>.
\<close>

theorem Select_cut_entries_le: "reach_Select p \<Longrightarrow> entries (cut p) \<le> entries p"
proof -
  assume "reach_Select p"
  then have "cut_inv p"
  proof (induction rule: reach_Select.induct)
    case (reach_zero q e c)
    then show ?case by (simp add: cut_inv_def entries_zero)
  next
    case (reach_fill p weight datum)
    then show ?case by (simp add: cut_inv_fill)
  next
    case (reach_add p p' r)
    then show ?case using cut_inv_add by blast
  qed
  then show ?thesis by (auto simp: cut_inv_def)
qed


theorem Select_cut_entries_le_witness:
  "entries (cut (snd (fill (zero ex_select) (1/2) (Fin 3)))) \<le> entries (snd (fill (zero ex_select) (1/2) (Fin 3)))"
proof (rule Select_cut_entries_le)
  have "reach_Select (zero ex_select)"
    unfolding ex_select_def by (rule reach_zero)
  moreover have "Fin 0 \<le> Fin 3" by simp
  moreover have "not_above_one (quantity (zero ex_select)) (1/2)"
    by (simp add: not_above_one_def ex_select_def identity_q_def call_def)
  ultimately show "reach_Select (snd (fill (zero ex_select) (1/2) (Fin 3)))"
    by (rule reach_fill)
qed

text \<open>
  C4 as stated fails: \<open>Select(x, Deviate(x))\<close> filled with the datum 2 at weight 1 has
  \<open>entries\<close> 1 and \<open>cut.entries\<close> 2 (the spec's own example has 5 against 3).
\<close>

theorem Select_cut_entries_le_counterexample:
  "fill (zero ex_select) 2 (Fin 1)
     = (None, Select identity_q (Fin 1) (Deviate identity_q (Fin 2) (Fin 2) (Fin 0)))
   \<and> \<not> entries (cut (snd (fill (zero ex_select) 2 (Fin 1))))
         \<le> entries (snd (fill (zero ex_select) 2 (Fin 1)))"
  by (simp add: ex_select_def identity_q_def call_def Let_def minus_fl_def)

subsection \<open>fill in exact arithmetic: a call that raises changes nothing\<close>

lemma same_shape_raises: "same_shape a b \<Longrightarrow> raises a datum = raises b datum"
  by (induction a b rule: same_shape.induct) (auto split: sum.splits option.splits)

lemma raises_iff:
  "well_formed p \<Longrightarrow> Fin 0 < w \<Longrightarrow> (fst (fill p datum w) \<noteq> None) = raises p datum"
proof (induction p arbitrary: w)
  case (Bag q e vs)
  then show ?case by (auto split: sum.splits option.splits)
next
  case (Deviate q e m s)
  then show ?case using fl_add_pos_nonzero[of e w]
    by (auto simp: Let_def split: sum.splits option.splits)
next
  case (Fraction q e n d)
  show ?case
  proof (cases "call q datum")
    case (Inl err)
    then show ?thesis by simp
  next
    case (Inr v)
    show ?thesis
    proof (cases "as_real v")
      case None
      then show ?thesis using Inr by simp
    next
      case (Some x)
      have wfn: "well_formed n" and wfd: "well_formed d" using Fraction.prems by simp_all
      have d: "(fst (fill d datum w) \<noteq> None) = raises d datum"
        using Fraction.IH(2)[OF wfd Fraction.prems(2)] .
      have n: "Fin 0 < x \<Longrightarrow> (fst (fill n datum (x * w)) \<noteq> None) = raises n datum"
        using Fraction.IH(1)[OF wfn, of "x * w"] fl_pos_mult[OF Fraction.prems(2), of x] by simp
      show ?thesis using Inr Some d n Fraction.prems(2) fl_pos_mult[OF Fraction.prems(2), of x]
        by (auto simp: Let_def split: prod.splits option.splits)
    qed
  qed
next
  case (Select q e c)
  show ?case
  proof (cases "call q datum")
    case (Inl err)
    then show ?thesis by simp
  next
    case (Inr v)
    show ?thesis
    proof (cases "as_real v")
      case None
      then show ?thesis using Inr by simp
    next
      case (Some x)
      have wfc: "well_formed c" using Select.prems by simp
      have c: "Fin 0 < x \<Longrightarrow> (fst (fill c datum (x * w)) \<noteq> None) = raises c datum"
        using Select.IH[OF wfc, of "x * w"] fl_pos_mult[OF Select.prems(2), of x] by simp
      show ?thesis using Inr Some c fl_pos_mult[OF Select.prems(2), of x]
        by (auto simp: Let_def split: prod.splits option.splits)
    qed
  qed
qed

lemma call_expr: "call q datum = Inr v \<Longrightarrow> expr q \<noteq> None"
  by (auto simp: call_def split: option.splits)

lemma fill_Select:
  assumes "call q datum = Inr v" "as_real v = Some x"
  shows "fill (Select q e c) datum w =
     (if Fin 0 < x * w then
        (case fst (fill c datum (x * w)) of
           Some err \<Rightarrow> (Some err, Select q e (snd (fill c datum (x * w))))
         | None \<Rightarrow> (None, Select q (e + w) (snd (fill c datum (x * w)))))
      else (None, Select q (e + w) c))"
  using assms by (cases "fill c datum (x * w)") (auto simp: Let_def split: option.splits)

lemma fill_Fraction_pos:
  assumes "call q datum = Inr v" "as_real v = Some x" "Fin 0 < w"
  shows "fill (Fraction q e n d) datum w =
     (case fst (fill d datum w) of
        Some err \<Rightarrow> (Some err, Fraction q e n (snd (fill d datum w)))
      | None \<Rightarrow>
         (if Fin 0 < x * w then
            (case fst (fill n datum (x * w)) of
               Some err \<Rightarrow> (Some err, Fraction q e (snd (fill n datum (x * w))) (snd (fill d datum w)))
             | None \<Rightarrow> (None, Fraction q (e + w) (snd (fill n datum (x * w))) (snd (fill d datum w))))
          else (None, Fraction q (e + w) n (snd (fill d datum w)))))"
  using assms by (cases "fill d datum w"; cases "fill n datum (x * w)") (auto simp: Let_def split: option.splits)

lemma fill_Fraction_nonpos:
  assumes "call q datum = Inr v" "as_real v = Some x" "\<not> Fin 0 < w"
  shows "fill (Fraction q e n d) datum w =
     (if Fin 0 < x * w then
        (case fst (fill n datum (x * w)) of
           Some err \<Rightarrow> (Some err, Fraction q e (snd (fill n datum (x * w))) d)
         | None \<Rightarrow> (None, Fraction q (e + w) (snd (fill n datum (x * w))) d))
      else (None, Fraction q (e + w) n d))"
  using assms by (cases "fill n datum (x * w)") (auto simp: Let_def split: option.splits)

lemma fill_error_unchanged:
  "well_formed p \<Longrightarrow> fst (fill p datum w) \<noteq> None \<Longrightarrow> snd (fill p datum w) = p"
proof (induction p arbitrary: w)
  case (Bag q e vs)
  then show ?case by (auto split: sum.splits option.splits if_splits)
next
  case (Deviate q e m s)
  then show ?case using fl_add_pos_nonzero[of e w]
    by (auto simp: Let_def split: sum.splits option.splits if_splits)
next
  case (Fraction q e n d)
  show ?case
  proof (cases "call q datum")
    case (Inl err)
    then show ?thesis by simp
  next
    case (Inr v)
    show ?thesis
    proof (cases "as_real v")
      case None
      then show ?thesis using Inr by simp
    next
      case (Some x)
      have wfn: "well_formed n" and wfd: "well_formed d" and sh: "same_shape n d"
        using Fraction.prems call_expr[OF Inr] by simp_all
      show ?thesis
      proof (cases "Fin 0 < w")
        case True
        note unf = fill_Fraction_pos[OF Inr Some True, of e n d]
        show ?thesis
        proof (cases "fst (fill d datum w)")
          case (Some err)
          then have "snd (fill d datum w) = d" using Fraction.IH(2)[OF wfd, of w] by simp
          then show ?thesis using Some by (simp add: unf del: fill.simps)
        next
          case None
          then have nr: "\<not> raises n datum"
            using raises_iff[OF wfd True, of datum] same_shape_raises[OF sh, of datum] by simp
          have "Fin 0 < x * w \<Longrightarrow> fst (fill n datum (x * w)) = None"
            using raises_iff[OF wfn, of "x * w" datum] nr by simp
          then have False using Fraction.prems(2) None
            by (auto simp: unf simp del: fill.simps split: option.splits if_splits)
          then show ?thesis ..
        qed
      next
        case False
        note unf = fill_Fraction_nonpos[OF Inr Some False, of e n d]
        show ?thesis
        proof (cases "Fin 0 < x * w")
          case True
          have e: "fst (fill n datum (x * w)) \<noteq> None"
            using Fraction.prems(2) True by (auto simp: unf simp del: fill.simps split: option.splits)
          then have "snd (fill n datum (x * w)) = n" using Fraction.IH(1)[OF wfn] by simp
          then show ?thesis using True e by (auto simp: unf simp del: fill.simps split: option.splits)
        next
          case F2: False
          then show ?thesis using Fraction.prems(2) by (simp add: unf del: fill.simps)
        qed
      qed
    qed
  qed
next
  case (Select q e c)
  show ?case
  proof (cases "call q datum")
    case (Inl err)
    then show ?thesis by simp
  next
    case (Inr v)
    show ?thesis
    proof (cases "as_real v")
      case None
      then show ?thesis using Inr by simp
    next
      case (Some x)
      have wfc: "well_formed c" using Select.prems by simp
      note unf = fill_Select[OF Inr Some, of e c w]
      show ?thesis
      proof (cases "Fin 0 < x * w")
        case True
        have e: "fst (fill c datum (x * w)) \<noteq> None"
          using Select.prems(2) True by (auto simp: unf simp del: fill.simps split: option.splits)
        then have "snd (fill c datum (x * w)) = c" using Select.IH[OF wfc] by simp
        then show ?thesis using True e by (auto simp: unf simp del: fill.simps split: option.splits)
      next
        case False
        then show ?thesis using Select.prems(2) by (simp add: unf del: fill.simps)
      qed
    qed
  qed
qed


lemma same_shape_refl: "same_shape p p"
  by (induction p) auto

lemma same_shape_sym: "same_shape a b \<Longrightarrow> same_shape b a"
  by (induction a b rule: same_shape.induct) auto

lemma same_shape_trans: "same_shape a b \<Longrightarrow> same_shape b c \<Longrightarrow> same_shape a c"
proof (induction a b arbitrary: c rule: same_shape.induct)
  case (1 q e vs q' e' vs')
  then show ?case by (cases c) auto
next
  case (2 q e m s q' e' m' s')
  then show ?case by (cases c) auto
next
  case (3 q e n d q' e' n' d')
  then show ?case by (cases c) auto
next
  case (4 q e c0 q' e' c')
  then show ?case by (cases c) auto
qed auto

lemma same_shape_fill: "same_shape (snd (fill p datum w)) p"
proof (induction p arbitrary: w)
  case (Bag q e vs)
  then show ?case by (auto split: sum.splits option.splits)
next
  case (Deviate q e m s)
  then show ?case by (auto simp: Let_def split: sum.splits option.splits)
next
  case (Fraction q e n d)
  show ?case
  proof (cases "call q datum")
    case (Inl err)
    then show ?thesis by (simp add: same_shape_refl)
  next
    case (Inr v)
    show ?thesis
    proof (cases "as_real v")
      case None
      then show ?thesis using Inr by (simp add: same_shape_refl)
    next
      case (Some x)
      show ?thesis
      proof (cases "Fin 0 < w")
        case True
        show ?thesis using Fraction.IH
          by (auto simp: fill_Fraction_pos[OF Inr Some True] same_shape_refl simp del: fill.simps split: option.splits)
      next
        case False
        show ?thesis using Fraction.IH
          by (auto simp: fill_Fraction_nonpos[OF Inr Some False] same_shape_refl simp del: fill.simps split: option.splits)
      qed
    qed
  qed
next
  case (Select q e c)
  show ?case
  proof (cases "call q datum")
    case (Inl err)
    then show ?thesis by (simp add: same_shape_refl)
  next
    case (Inr v)
    show ?thesis
    proof (cases "as_real v")
      case None
      then show ?thesis using Inr by (simp add: same_shape_refl)
    next
      case (Some x)
      show ?thesis using Select.IH
        by (auto simp: fill_Select[OF Inr Some] same_shape_refl simp del: fill.simps split: option.splits)
    qed
  qed
qed

lemma same_shape_fill2:
  assumes "same_shape n d"
  shows "same_shape (snd (fill n datum w)) (snd (fill d datum w'))"
  using same_shape_trans[OF same_shape_fill same_shape_trans[OF assms same_shape_sym[OF same_shape_fill]]] .

lemma same_shape_fill_l:
  assumes "same_shape n d"
  shows "same_shape (snd (fill n datum w)) d"
  using same_shape_trans[OF same_shape_fill assms] .

lemma same_shape_fill_r:
  assumes "same_shape n d"
  shows "same_shape n (snd (fill d datum w))"
  using same_shape_trans[OF assms same_shape_sym[OF same_shape_fill]] .

lemma well_formed_fill: "well_formed p \<Longrightarrow> well_formed (snd (fill p datum w))"
proof (induction p arbitrary: w)
  case (Bag q e vs)
  then show ?case by (auto split: sum.splits option.splits)
next
  case (Deviate q e m s)
  then show ?case using fl_add_pos_nonneg[of e w]
    by (auto simp: Let_def split: sum.splits option.splits)
next
  case (Fraction q e n d)
  have wfn: "well_formed n" and wfd: "well_formed d" using Fraction.prems by simp_all
  show ?case
  proof (cases "call q datum")
    case (Inl err)
    then show ?thesis using Fraction.prems by simp
  next
    case (Inr v)
    have sh: "same_shape n d" using Fraction.prems call_expr[OF Inr] by simp
    show ?thesis
    proof (cases "as_real v")
      case None
      then show ?thesis using Inr Fraction.prems by simp
    next
      case (Some x)
      show ?thesis
      proof (cases "Fin 0 < w")
        case True
        show ?thesis using Fraction.IH(1)[OF wfn] Fraction.IH(2)[OF wfd] wfn wfd
            same_shape_fill2[OF sh] same_shape_fill_l[OF sh] same_shape_fill_r[OF sh] sh
          by (auto simp: fill_Fraction_pos[OF Inr Some True] simp del: fill.simps split: option.splits)
      next
        case False
        show ?thesis using Fraction.IH(1)[OF wfn] Fraction.IH(2)[OF wfd] wfn wfd
            same_shape_fill2[OF sh] same_shape_fill_l[OF sh] same_shape_fill_r[OF sh] sh
          by (auto simp: fill_Fraction_nonpos[OF Inr Some False] simp del: fill.simps split: option.splits)
      qed
    qed
  qed
next
  case (Select q e c)
  have wfc: "well_formed c" using Select.prems by simp
  show ?case
  proof (cases "call q datum")
    case (Inl err)
    then show ?thesis using Select.prems by simp
  next
    case (Inr v)
    show ?thesis
    proof (cases "as_real v")
      case None
      then show ?thesis using Inr Select.prems by simp
    next
      case (Some x)
      show ?thesis using Select.IH[OF wfc] wfc
        by (auto simp: fill_Select[OF Inr Some] simp del: fill.simps split: option.splits)
    qed
  qed
qed

lemma call_present: "expr q \<noteq> None \<Longrightarrow> \<exists>v. call q datum = Inr v"
  by (auto simp: call_def)

lemma fill_error_TypeError:
  "present p \<Longrightarrow> well_formed p \<Longrightarrow> fst (fill p datum w) = Some err \<Longrightarrow> err = TypeError"
proof (induction p arbitrary: w)
  case (Bag q e vs)
  then show ?case using call_present[of q datum] by (auto split: sum.splits option.splits if_splits)
next
  case (Deviate q e m s)
  then show ?case using fl_add_pos_nonzero[of e w] call_present[of q datum]
    by (auto simp: Let_def split: sum.splits option.splits if_splits)
next
  case (Fraction q e n d)
  from Fraction.prems(1) obtain v where Inr: "call q datum = Inr v" using call_present[of q datum] by auto
  have pn: "present n" "well_formed n" and pd: "present d" "well_formed d" using Fraction.prems by simp_all
  show ?case
  proof (cases "as_real v")
    case None
    then show ?thesis using Inr Fraction.prems(3) by simp
  next
    case (Some x)
    show ?thesis
    proof (cases "Fin 0 < w")
      case True
      show ?thesis using Fraction.prems(3) Fraction.IH(1)[OF pn] Fraction.IH(2)[OF pd]
        by (auto simp: fill_Fraction_pos[OF Inr Some True] simp del: fill.simps split: option.splits if_splits)
    next
      case False
      show ?thesis using Fraction.prems(3) Fraction.IH(1)[OF pn] Fraction.IH(2)[OF pd]
        by (auto simp: fill_Fraction_nonpos[OF Inr Some False] simp del: fill.simps split: option.splits if_splits)
    qed
  qed
next
  case (Select q e c)
  from Select.prems(1) obtain v where Inr: "call q datum = Inr v" using call_present[of q datum] by auto
  have pc: "present c" "well_formed c" using Select.prems by simp_all
  show ?case
  proof (cases "as_real v")
    case None
    then show ?thesis using Inr Select.prems(3) by simp
  next
    case (Some x)
    show ?thesis using Select.prems(3) Select.IH[OF pc]
      by (auto simp: fill_Select[OF Inr Some] simp del: fill.simps split: option.splits if_splits)
  qed
qed

lemma fill_ill_typed:
  "ill_typed p datum \<Longrightarrow> calls_extractor p w \<Longrightarrow> fill p datum w = (Some TypeError, p)"
  by (cases p) (auto split: sum.splits)

text \<open>
  Well-formedness is what the library maintains: the constructors establish it, and
  \<open>zero\<close>, \<open>+\<close>, the past-tense constructors and (above) \<open>fill\<close> keep it.
\<close>

lemma same_shape_zero: "same_shape n d \<Longrightarrow> same_shape (zero n) (zero d)"
  by (induction n d rule: same_shape.induct) auto

lemma well_formed_zero: "well_formed p \<Longrightarrow> well_formed (zero p)"
  by (induction p) (auto simp: same_shape_zero)

lemma well_formed_init:
  "well_formed v \<Longrightarrow> well_formed (Fraction q (Fin 0) (zero v) (zero v))"
  "well_formed c \<Longrightarrow> well_formed (Select q (Fin 0) c)"
  "well_formed (Deviate q (Fin 0) (Fin 0) (Fin 0))"
  "well_formed (Bag q (Fin 0) [])"
  by (simp_all add: well_formed_zero same_shape_refl)

lemma same_shape_add: "add a b = Inr r \<Longrightarrow> same_shape r a"
proof (induction a b arbitrary: r rule: add.induct)
  case (1 q e vs q' e' vs')
  then show ?case by auto
next
  case (2 q ca ma sa q' cb mb sb)
  then show ?case by (auto simp: Let_def)
next
  case (3 q e n d q' e' n' d')
  then show ?case by (auto split: sum.splits)
next
  case (4 q e c q' e' c')
  then show ?case by (auto split: sum.splits)
qed auto

lemma fl_add_not_neg: "\<not> a < Fin 0 \<Longrightarrow> \<not> b < Fin 0 \<Longrightarrow> \<not> a + b < Fin 0"
  by (cases a; cases b) auto

lemma well_formed_add:
  "well_formed a \<Longrightarrow> well_formed b \<Longrightarrow> add a b = Inr r \<Longrightarrow> well_formed r"
proof (induction a b arbitrary: r rule: add.induct)
  case (1 q e vs q' e' vs')
  then show ?case by auto
next
  case (2 q ca ma sa q' cb mb sb)
  then show ?case using fl_add_not_neg[of ca cb] by (auto simp: Let_def)
next
  case (3 q e n d q' e' n' d')
  from "3.prems"(3) obtain n'' d'' where n: "add n n' = Inr n''" and d: "add d d' = Inr d''"
    and r: "r = Fraction q (Fin 0) n'' d''"
    by (auto split: sum.splits)
  have wn: "well_formed n''" using "3.IH"(1)[OF _ _ n] "3.prems" by simp
  have wd: "well_formed d''" using "3.IH"(2)[OF n _ _ d] "3.prems" by simp
  have "expr q \<noteq> None \<Longrightarrow> same_shape n'' d''"
    using same_shape_trans[OF same_shape_add[OF n] same_shape_trans[OF _ same_shape_sym[OF same_shape_add[OF d]]]]
      "3.prems"(1) by simp
  then show ?case using r wn wd by auto
next
  case (4 q e c q' e' c')
  then show ?case by (auto split: sum.splits)
qed auto

lemma well_formed_ed:
  "Deviate_ed e m v = Inr p \<Longrightarrow> well_formed p"
  "Bag_ed e vs = Inr p \<Longrightarrow> well_formed p"
  "well_formed c \<Longrightarrow> Select_ed e c = Inr p \<Longrightarrow> well_formed p"
  "well_formed n \<Longrightarrow> well_formed d \<Longrightarrow> Fraction_ed e n d = Inr p \<Longrightarrow> well_formed p"
  by (auto simp: Deviate_ed_def Bag_ed_def Select_ed_def Fraction_ed_def serializable_def
      split: if_splits option.splits)

text \<open>
  With exact products and extractor results within the floats, which is \<open>fill\<close>: on a
  well-formed tree a fill keeps the tree well-formed; a fill that raises leaves the
  whole tree exactly as it was; on a present-tense tree the error is the quantity-type
  error (TypeError); and when the extractor of the root is called and returns an
  ill-typed value the fill does raise it. The numerator and the denominator of a
  Fraction are of one shape, and the proof rests on the two making the same calls: the
  signs of \<open>selector * weight\<close> and of \<open>selector * (fraction * weight)\<close> agree
  (\<open>fl_pos_mult\<close>).
\<close>

lemma fill_exact_unchanged:
  assumes "well_formed p"
  shows "well_formed (snd (fill p datum w))
     \<and> (fst (fill p datum w) \<noteq> None \<longrightarrow> snd (fill p datum w) = p)
     \<and> (present p \<longrightarrow> fst (fill p datum w) \<noteq> None \<longrightarrow> fst (fill p datum w) = Some TypeError)
     \<and> (ill_typed p datum \<longrightarrow> calls_extractor p w \<longrightarrow> fill p datum w = (Some TypeError, p))"
  using assms well_formed_fill[of p datum w] fill_error_unchanged[of p datum w]
    fill_error_TypeError[of p datum w] fill_ill_typed[of p datum w]
  by auto

lemma fill_exact_underflow:
  "present ex_underflow \<and> well_formed ex_underflow
   \<and> fill ex_underflow 1 (Fin (1 / 2 ^ 600)) = (Some TypeError, ex_underflow)"
  by (simp add: ex_underflow_def scale_up_q_def scale_down_q_def label_q_def call_def Let_def)

subsection \<open>fill in double precision: a call that raises after an update\<close>

text \<open>
  C7. The claim is what the code means to do (\<open>no possibility of exception from here on
  out (for rollback)\<close>), and the code misses it twice. \<open>Fraction.fill\<close> fills the
  denominator before the numerator, and every Select below decides by its own product
  of selector and weight whether it fills its cut. On
  \<open>Fraction(2^900, Select(2^-600, Deviate(label)))\<close> filled at weight \<open>2^-600\<close>, the
  product \<open>2^-1200\<close> underflows to zero in the denominator, whose Select adds the weight
  to its entries and returns; the numerator is filled at weight \<open>2^300\<close>, its product
  \<open>2^-300\<close> is positive, and the Deviate below, whose extractor returns a string,
  raises TypeError: the fill has raised and the entries of the denominator have
  changed. And \<open>Deviate.fill\<close> adds the weight to its entries before it calls
  \<open>math.isnan(q)\<close>, which raises OverflowError on an \<open>int\<close> beyond the floats: the fill
  of \<open>10^400\<close> raises and leaves the entries at 1.
\<close>

theorem fill_failure_changes_state:
  "fill_double ex_underflow 1 (Fin (1 / 2 ^ 600))
     = (Some TypeError,
        Fraction scale_up_q (Fin 0)
          (Select scale_down_q (Fin 0) (Deviate label_q (Fin 0) (Fin 0) (Fin 0)))
          (Select scale_down_q (Fin (1 / 2 ^ 600)) (Deviate label_q (Fin 0) (Fin 0) (Fin 0))))
   \<and> snd (fill_double ex_underflow 1 (Fin (1 / 2 ^ 600))) \<noteq> ex_underflow
   \<and> fill_double (Deviate identity_q (Fin 0) (Fin 0) (Fin 0)) (10 ^ 400) (Fin 1)
     = (Some OverflowError, Deviate identity_q (Fin 1) (Fin 0) (Fin 0))
   \<and> snd (fill_double (Deviate identity_q (Fin 0) (Fin 0) (Fin 0)) (10 ^ 400) (Fin 1))
     \<noteq> Deviate identity_q (Fin 0) (Fin 0) (Fin 0)"
  by (simp add: ex_underflow_def scale_up_q_def scale_down_q_def label_q_def identity_q_def
      call_def double_mult_def Let_def)

subsection \<open>Equality: named and anonymous forms\<close>

text \<open>
  C3. \<open>Select.__eq__\<close> does not look at the quantity: a Select named \<open>x\<close> and the same
  Select without a name compare equal, although their quantities differ. The same pair
  of quantities on a Fraction compares unequal, as the claim says.
\<close>

theorem Select_eq_ignores_quantity:
  "eq (1 / 10 ^ 12) (1 / 10 ^ 12)
      (Select identity_q (Fin 0) (Deviate identity_q (Fin 0) (Fin 0) (Fin 0)))
      (Select anonymous_q (Fin 0) (Deviate identity_q (Fin 0) (Fin 0) (Fin 0))) = Inr True
   \<and> identity_q \<noteq> anonymous_q
   \<and> eq (1 / 10 ^ 12) (1 / 10 ^ 12)
      (Fraction identity_q (Fin 0) (Deviate identity_q (Fin 0) (Fin 0) (Fin 0))
         (Deviate identity_q (Fin 0) (Fin 0) (Fin 0)))
      (Fraction anonymous_q (Fin 0) (Deviate identity_q (Fin 0) (Fin 0) (Fin 0))
         (Deviate identity_q (Fin 0) (Fin 0) (Fin 0))) = Inr False"
  by (simp add: identity_q_def anonymous_q_def variance_def)

subsection \<open>Zero is neutral\<close>

lemma fl_add_0: "e + Fin 0 = (e::fl)" "Fin 0 + e = e"
  by (cases e; simp)+

lemma numeq_refl: "0 \<le> rtol \<Longrightarrow> 0 \<le> atol \<Longrightarrow> numeq rtol atol x x"
  by (cases x) (auto simp: max_def)

lemma key_eq_refl: "0 \<le> rtol \<Longrightarrow> 0 \<le> atol \<Longrightarrow> comparable_key k \<Longrightarrow> key_eq rtol atol k k"
  by (cases k) (auto simp: numeq_refl list_all2_same list_all_iff)

lemma weight_eq_refl: "0 \<le> rtol \<Longrightarrow> 0 \<le> atol \<Longrightarrow> weight_eq rtol atol w w"
  by (cases w) (auto simp: numeq_refl)

lemma comparable_eq_items:
  assumes "list_all (\<lambda>(k, n). comparable_key k) vs" "(k, w) \<in> set (eq_items vs)"
  shows "comparable_key k"
  using assms by (auto simp: eq_items_def sorted_items_def list_all_iff)

lemma Bag_values_eq_refl:
  assumes "0 \<le> rtol" "0 \<le> atol" "list_all (\<lambda>(k, n). comparable_key k) vs"
  shows "Bag_values_eq rtol atol vs vs"
  using comparable_eq_items[OF assms(3)] key_eq_refl[OF assms(1,2)] weight_eq_refl[OF assms(1,2)]
  by (auto simp: Bag_values_eq_def list_all_iff zip_same)

lemma eq_Bag_refl:
  assumes "0 \<le> rtol" "0 \<le> atol" "list_all (\<lambda>(k, n). comparable_key k) vs"
  shows "eq rtol atol (Bag q e vs) (Bag q e vs) = Inr True"
  using Bag_values_eq_refl[OF assms] numeq_refl[OF assms(1,2)] by simp

lemma fold_dict_add:
  "distinct (map fst (acc @ vs)) \<Longrightarrow> fold (\<lambda>(k, c) out. dict_add k c out) vs acc = acc @ vs"
proof (induction vs arbitrary: acc)
  case Nil
  then show ?case by simp
next
  case (Cons a vs)
  obtain k c where a: "a = (k, c)" by (cases a)
  have notin: "k \<notin> fst ` set acc" using Cons.prems a by auto
  have step: "dict_add k c acc = acc @ [(k, c)]" using notin
    by (induction acc) auto
  have "distinct (map fst ((acc @ [(k, c)]) @ vs))" using Cons.prems a by simp
  from Cons.IH[OF this] show ?case using a step by simp
qed

text \<open>
  The sum of a Deviate and its zero, on either side: the entries are the same, the mean
  is halved when the entries are zero, and the variance is NaN when the mean is not
  finite.
\<close>

lemma Deviate_add_zero:
  assumes "0 \<le> rtol" "0 \<le> atol" "zero_neutral rtol atol (Deviate q e m s)"
  shows "\<exists>r. add (Deviate q e m s) (zero (Deviate q e m s)) = Inr r
            \<and> eq rtol atol r (Deviate q e m s) = Inr True"
    and "\<exists>r. add (zero (Deviate q e m s)) (Deviate q e m s) = Inr r
            \<and> eq rtol atol r (Deviate q e m s) = Inr True"
  using assms numeq_refl[OF assms(1,2)]
  by (cases e; cases m; cases s; auto simp: Let_def minus_fl_def variance_def)+

lemma add_zero:
  assumes "0 \<le> rtol" "0 \<le> atol"
  shows "zero_neutral rtol atol p \<Longrightarrow>
         (\<exists>r. add p (zero p) = Inr r \<and> eq rtol atol r p = Inr True)
       \<and> (\<exists>r. add (zero p) p = Inr r \<and> eq rtol atol r p = Inr True)"
proof (induction p)
  case (Bag q e vs)
  then show ?case
    using fold_dict_add[of "[]" vs] eq_Bag_refl[OF assms, of vs q e] by (simp add: fl_add_0)
next
  case (Deviate q e m s)
  then show ?case using Deviate_add_zero[OF assms, of q e m s] by blast
next
  case (Fraction q e n d)
  then show ?case by simp
next
  case (Select q e c)
  then show ?case using numeq_refl[OF assms, of e] by (auto simp: fl_add_0)
qed

text \<open>
  C2, as the code has it. For all tolerances \<open>\<ge> 0\<close> and every tree of Bag, Deviate and
  Select nodes in which no tuple key of a Bag holds a NaN and each Deviate is as
  \<open>zero_neutral\<close> says (with a finite mean: finite entries, and a mean within tolerance
  of its half when the entries are zero; with an infinite or NaN mean: the variance NaN,
  and the mean NaN when the entries are not finite), \<open>P + P.zero()\<close> and
  \<open>P.zero() + P\<close> succeed and are equal to \<open>P\<close>. Fraction is left out.
\<close>

theorem zero_is_identity:
  assumes "0 \<le> rtol" "0 \<le> atol" "zero_neutral rtol atol p"
  shows "(\<exists>r. add p (zero p) = Inr r \<and> eq rtol atol r p = Inr True)
       \<and> (\<exists>r. add (zero p) p = Inr r \<and> eq rtol atol r p = Inr True)"
  using add_zero[OF assms] .


theorem zero_is_identity_witness:
  "(\<exists>r. add (Select identity_q (Fin 2) (Bag label_q (Fin 2) [(KStr ''label'', Fin 2)]))
              (zero (Select identity_q (Fin 2) (Bag label_q (Fin 2) [(KStr ''label'', Fin 2)]))) = Inr r
        \<and> eq (1 / 10 ^ 12) (1 / 10 ^ 12) r
              (Select identity_q (Fin 2) (Bag label_q (Fin 2) [(KStr ''label'', Fin 2)])) = Inr True)
   \<and> (\<exists>r. add (zero (Select identity_q (Fin 2) (Bag label_q (Fin 2) [(KStr ''label'', Fin 2)])))
              (Select identity_q (Fin 2) (Bag label_q (Fin 2) [(KStr ''label'', Fin 2)])) = Inr r
        \<and> eq (1 / 10 ^ 12) (1 / 10 ^ 12) r
              (Select identity_q (Fin 2) (Bag label_q (Fin 2) [(KStr ''label'', Fin 2)])) = Inr True)"
  by (rule zero_is_identity) simp_all

text \<open>
  C2 as stated fails on \<open>Deviate.ed(0, 1, 0)\<close>: with zero entries on both sides the
  combine averages the means, so \<open>P + P.zero()\<close> has mean 1/2, which is not equal to 1
  under the tolerance \<open>1e-12\<close> of the test suite.
\<close>

theorem zero_is_identity_counterexample:
  "Deviate_ed (Fin 0) (Fin 1) (Fin 0) = Inr (Deviate past_q (Fin 0) (Fin 1) (Fin 0))
   \<and> add (Deviate past_q (Fin 0) (Fin 1) (Fin 0)) (zero (Deviate past_q (Fin 0) (Fin 1) (Fin 0)))
     = Inr (Deviate past_q (Fin 0) (Fin (1/2)) (Fin 0))
   \<and> eq (1 / 10 ^ 12) (1 / 10 ^ 12) (Deviate past_q (Fin 0) (Fin (1/2)) (Fin 0))
        (Deviate past_q (Fin 0) (Fin 1) (Fin 0)) = Inr False"
  by (simp add: Let_def minus_fl_def variance_def Deviate_ed_def serializable_def past_q_def)

text \<open>
  Both conditions are exact. A Deviate outside its condition is not equal to its sum
  with its zero, and a Bag is equal to itself only when no tuple key holds a NaN.
\<close>

lemma zero_neutral_Deviate_iff:
  assumes "0 \<le> rtol" "0 \<le> atol"
  shows "zero_neutral rtol atol (Deviate q e m s) \<longleftrightarrow>
     (\<exists>r. add (Deviate q e m s) (zero (Deviate q e m s)) = Inr r
            \<and> eq rtol atol r (Deviate q e m s) = Inr True)"
  using assms numeq_refl[OF assms(1,2)]
  by (cases e; cases m; cases s;
      auto simp: Let_def minus_fl_def variance_def max_def split: if_splits)

lemma key_eq_self: "key_eq rtol atol k k \<Longrightarrow> comparable_key k"
  by (cases k) (auto simp: list_all2_same list_all_iff)

lemma eq_Bag_refl_iff:
  assumes "0 \<le> rtol" "0 \<le> atol"
  shows "eq rtol atol (Bag q e vs) (Bag q e vs) = Inr True
     \<longleftrightarrow> list_all (\<lambda>(k, n). comparable_key k) vs"
proof
  assume "list_all (\<lambda>(k, n). comparable_key k) vs"
  then show "eq rtol atol (Bag q e vs) (Bag q e vs) = Inr True"
    using eq_Bag_refl[OF assms] by blast
next
  assume "eq rtol atol (Bag q e vs) (Bag q e vs) = Inr True"
  then have b: "Bag_values_eq rtol atol vs vs" by (auto split: if_splits)
  show "list_all (\<lambda>(k, n). comparable_key k) vs"
    unfolding list_all_iff
  proof (intro ballI, clarify)
    fix k n assume kn: "(k, n) \<in> set vs"
    show "comparable_key k"
    proof (cases "k = KNum NaN")
      case True
      then show ?thesis by simp
    next
      case False
      then have "(k, Some n) \<in> set (eq_items vs)"
        using kn by (auto simp: eq_items_def sorted_items_def image_iff)
      then have "((k, Some n), (k, Some n)) \<in> set (zip (eq_items vs) (eq_items vs))"
        by (simp add: zip_same)
      then have "key_eq rtol atol k k"
        using b by (fastforce simp: Bag_values_eq_def list_all_iff)
      then show ?thesis by (rule key_eq_self)
    qed
  qed
qed

lemma Bag_nan_tuple_unequal:
  "eq rtol atol (Bag q (Fin 1) [(KTup [Fin 1, NaN], Fin 1)])
      (Bag q (Fin 1) [(KTup [Fin 1, NaN], Fin 1)]) = Inr False"
  by (simp add: Bag_values_eq_def eq_items_def sorted_items_def)

subsection \<open>Fraction: loading from the wire\<close>

text \<open>
  C9, as the code has it. \<open>Fraction.fromJsonFragment\<close> reads numerator and denominator
  with the one factory that \<open>"type"\<close> names and passes them to \<open>Fraction.ed\<close>: whenever
  \<open>entries\<close> is a number that is not negative and both children load, the Fraction
  loads, whatever the shapes of the children. The two are combined, and a mismatch
  refused, by \<open>Fraction.build\<close> only.
\<close>

theorem Fraction_load_unchecked:
  assumes "hasKeys (map fst kvs) [''entries'', ''type'', ''numerator'', ''denominator''] [''name'', ''sub:name'']"
    and "map_of kvs ''entries'' = Some je" and "is_number je" and "py_float je = Inr e"
    and "\<not> e < Fin 0"
    and "get_name kvs ''name'' = Inr nm"
    and "map_of kvs ''type'' = Some (PStr t)" and "registered t"
    and "get_name kvs ''sub:name'' = Inr subName"
    and "map_of kvs ''numerator'' = Some jn" and "fromJsonFragment t jn subName = Inr n"
    and "map_of kvs ''denominator'' = Some jd" and "fromJsonFragment t jd subName = Inr d"
  shows "fromJsonFragment ''Fraction'' (PDict kvs) nameFromParent
           = Inr (Fraction \<lparr>expr = None, name = (case nm of None \<Rightarrow> nameFromParent | Some s \<Rightarrow> Some s)\<rparr> e n d)
       \<and> (\<forall>err. add n d = Inl err \<longrightarrow> Fraction_build n d = Inl err)"
  using assms
  by (simp add: Fraction_ed_def Fraction_build_def set_name_def serializable_def)


theorem Fraction_load_unchecked_witness:
  "fromJsonFragment ''Fraction'' (PDict mismatched_items) (Some ''parent'')
     = Inr (Fraction \<lparr>expr = None, name = Some ''parent''\<rparr> (Fin 0)
              (Select past_q (Fin 0) (Deviate past_q (Fin 0) (Fin 0) (Fin 0)))
              (Select past_q (Fin 0) (Bag past_q (Fin 0) [])))
   \<and> Fraction_build (Select past_q (Fin 0) (Deviate past_q (Fin 0) (Fin 0) (Fin 0)))
        (Select past_q (Fin 0) (Bag past_q (Fin 0) [])) = Inl ContainerException"
proof -
  let ?n = "Select past_q (Fin 0) (Deviate past_q (Fin 0) (Fin 0) (Fin 0))"
  let ?d = "Select past_q (Fin 0) (Bag past_q (Fin 0) [])"
  have n: "fromJsonFragment ''Select''
             (PDict [(''entries'', PNum (Fin 0)), (''type'', PStr ''Deviate''),
                     (''data'', PDict [(''entries'', PNum (Fin 0)), (''mean'', PNum (Fin 0)),
                                       (''variance'', PNum (Fin 0))])]) None = Inr ?n"
    by (simp add: past_q_def hasKeys_def get_name_def registered_def
        Deviate_fromJsonFragment_def Deviate_ed_def Select_ed_def set_name_def serializable_def)
  have d: "fromJsonFragment ''Select''
             (PDict [(''entries'', PNum (Fin 0)), (''type'', PStr ''Bag''),
                     (''data'', PDict [(''entries'', PNum (Fin 0)), (''values'', PList [])])]) None = Inr ?d"
    by (simp add: past_q_def hasKeys_def get_name_def registered_def
        Bag_fromJsonFragment_def Bag_ed_def Select_ed_def set_name_def serializable_def)
  have a: "add ?n ?d = Inl ContainerException" by simp
  have "fromJsonFragment ''Fraction'' (PDict mismatched_items) (Some ''parent'')
          = Inr (Fraction \<lparr>expr = None, name = (case None of None \<Rightarrow> Some ''parent'' | Some s \<Rightarrow> Some s)\<rparr> (Fin 0) ?n ?d)
        \<and> (\<forall>err. add ?n ?d = Inl err \<longrightarrow> Fraction_build ?n ?d = Inl err)"
    apply (rule Fraction_load_unchecked[where je = "PNum (Fin 0)" and t = "''Select''" and subName = None])
                apply (simp_all add: mismatched_items_def hasKeys_def get_name_def registered_def
        del: fromJsonFragment.simps)
     apply (rule n)
    apply (rule d)
    done
  with a show ?thesis by simp
qed

text \<open>
  C9 as stated fails: the fragment whose numerator is a Select of a Deviate and whose
  denominator is a Select of a Bag loads, although the two children cannot be added.
\<close>

theorem Fraction_load_unchecked_counterexample:
  "fromJsonFragment ''Fraction'' (PDict mismatched_items) None
     = Inr (Fraction past_q (Fin 0)
              (Select past_q (Fin 0) (Deviate past_q (Fin 0) (Fin 0) (Fin 0)))
              (Select past_q (Fin 0) (Bag past_q (Fin 0) [])))
   \<and> add (Select past_q (Fin 0) (Deviate past_q (Fin 0) (Fin 0) (Fin 0)))
          (Select past_q (Fin 0) (Bag past_q (Fin 0) [])) = Inl ContainerException"
  by (simp add: mismatched_items_def past_q_def hasKeys_def get_name_def registered_def
      Deviate_fromJsonFragment_def Bag_fromJsonFragment_def Deviate_ed_def Bag_ed_def
      Select_ed_def Fraction_ed_def set_name_def serializable_def)

subsection \<open>Writing a tree and reading it back\<close>

lemma floatToJson_special: "is_special_or_real (floatToJson x)"
  by (cases x) auto

lemma floatToJson_number: "isfin x \<Longrightarrow> is_number (floatToJson x)"
  by (cases x) auto

lemma py_float_floatToJson: "py_float (floatToJson x) = Inr x"
  by (cases x) auto

lemma floatOrNan_floatToJson: "floatOrNan (floatToJson x) = Some x"
  by (cases x) auto

lemma those_floatOrNan: "those (map floatOrNan (map floatToJson xs)) = Some xs"
  by (induction xs) (auto simp: floatOrNan_floatToJson)

lemma Bag_json_key_rangeToJson: "plain_key k \<Longrightarrow> Bag_json_key (rangeToJson k) = Inr k"
proof (cases k)
  case (KNum x)
  then show ?thesis by (cases x) auto
next
  case (KStr s)
  assume "plain_key k"
  then show ?thesis using KStr by simp
next
  case (KTup xs)
  have "list_all is_special_or_real (map floatToJson xs)"
    by (simp add: list_all_iff floatToJson_special)
  then show ?thesis using KTup those_floatOrNan[of xs] by simp
qed

lemma Bag_json_item_roundtrip:
  "plain_key k \<Longrightarrow> Bag_json_item (PDict [(''w'', floatToJson n), (''v'', rangeToJson k)]) = Inr (k, n)"
  by (simp add: hasKeys_def floatToJson_special py_float_floatToJson Bag_json_key_rangeToJson)

lemma dict_set_new: "k \<notin> fst ` set acc \<Longrightarrow> dict_set k v acc = acc @ [(k, v)]"
  by (induction acc) auto

lemma Bag_json_values_roundtrip:
  "distinct (map fst (acc @ L)) \<Longrightarrow> list_all (\<lambda>(k, n). plain_key k) L \<Longrightarrow>
   Bag_json_values (map (\<lambda>(v, n). PDict [(''w'', floatToJson n), (''v'', rangeToJson v)]) L) acc = Inr (acc @ L)"
proof (induction L arbitrary: acc)
  case Nil
  then show ?case by simp
next
  case (Cons a L)
  obtain k n where a: "a = (k, n)" by (cases a)
  have pk: "plain_key k" and rest: "list_all (\<lambda>(k, n). plain_key k) L" using Cons.prems(2) a by simp_all
  have notin: "k \<notin> fst ` set acc" using Cons.prems(1) a by auto
  have d: "distinct (map fst ((acc @ [(k, n)]) @ L))" using Cons.prems(1) a by simp
  show ?case
    using Cons.IH[OF d rest] a
    by (simp add: Bag_json_item_roundtrip[OF pk] dict_set_new[OF notin] del: Bag_json_item.simps)
qed

lemma keys_sorted_items: "fst ` set (sorted_items vs) = fst ` set vs - {KNum NaN}"
  by (auto simp: sorted_items_def image_iff)

lemma distinct_sorted_items: "distinct (map fst vs) \<Longrightarrow> distinct (map fst (sorted_items vs))"
  by (auto simp: sorted_items_def distinct_map intro: inj_on_subset)

lemma distinct_json_items: "distinct (map fst vs) \<Longrightarrow> distinct (map fst (json_items vs))"
  using keys_sorted_items[of vs]
  by (auto simp: json_items_def distinct_sorted_items split: option.splits)

lemma plain_json_items:
  "list_all (\<lambda>(k, n). plain_key k) vs \<Longrightarrow> list_all (\<lambda>(k, n). plain_key k) (json_items vs)"
  by (auto simp: json_items_def sorted_items_def list_all_iff split: option.splits dest: map_of_SomeD)

lemma Bag_values_roundtrip:
  assumes "distinct (map fst vs)" "list_all (\<lambda>(k, n). plain_key k) vs"
  shows "Bag_json_values (map (\<lambda>(v, n). PDict [(''w'', floatToJson n), (''v'', rangeToJson v)]) (json_items vs)) []
           = Inr (json_items vs)"
  using Bag_json_values_roundtrip[of "[]" "json_items vs"] distinct_json_items[OF assms(1)] plain_json_items[OF assms(2)]
  by simp


lemma registered_class_name: "registered (class_name p)"
  by (cases p) (auto simp: registered_def)

lemma load_Deviate:
  assumes "wire_ok rtol atol (Deviate q e m s)" "(suppress \<or> name q = None) \<longrightarrow> pn = name q"
  shows "fromJsonFragment ''Deviate'' (toJsonFragment (Deviate q e m s) suppress) pn = Inr (reloaded (Deviate q e m s))"
  using assms
  by (cases "name q"; cases suppress)
     (auto simp: maybeAdd_def hasKeys_def get_name_def Deviate_fromJsonFragment_def Deviate_ed_def
        set_name_def serializable_def freeze_def floatToJson_special py_float_floatToJson)

lemma load_Bag:
  assumes "wire_ok rtol atol (Bag q e vs)" "(suppress \<or> name q = None) \<longrightarrow> pn = name q"
  shows "fromJsonFragment ''Bag'' (toJsonFragment (Bag q e vs) suppress) pn = Inr (reloaded (Bag q e vs))"
  using assms
  by (cases "name q"; cases suppress)
     (auto simp: maybeAdd_def hasKeys_def get_name_def Bag_fromJsonFragment_def Bag_ed_def
        set_name_def serializable_def freeze_def floatToJson_special py_float_floatToJson
        Bag_values_roundtrip)

lemma load_Select:
  assumes "wire_ok rtol atol (Select q e c)" "(suppress \<or> name q = None) \<longrightarrow> pn = name q"
    and "fromJsonFragment (class_name c) (toJsonFragment c False) None = Inr (reloaded c)"
  shows "fromJsonFragment ''Select'' (toJsonFragment (Select q e c) suppress) pn = Inr (reloaded (Select q e c))"
  using assms
  by (cases "name q"; cases suppress)
     (auto simp: maybeAdd_def hasKeys_def get_name_def Select_ed_def registered_class_name
        set_name_def serializable_def freeze_def floatToJson_number py_float_floatToJson)

lemma load_Fraction:
  assumes "wire_ok rtol atol (Fraction q e n d)" "(suppress \<or> name q = None) \<longrightarrow> pn = name q"
    and "fromJsonFragment (class_name n) (toJsonFragment n True) (name (quantity n)) = Inr (reloaded n)"
    and "fromJsonFragment (class_name n) (toJsonFragment d True) (name (quantity n)) = Inr (reloaded d)"
  shows "fromJsonFragment ''Fraction'' (toJsonFragment (Fraction q e n d) suppress) pn = Inr (reloaded (Fraction q e n d))"
  using assms
  by (cases "name q"; cases suppress; cases "name (quantity n)")
     (auto simp: maybeAdd_def hasKeys_def get_name_def Fraction_ed_def registered_class_name
        set_name_def serializable_def freeze_def floatToJson_number py_float_floatToJson)

lemma load_fragment:
  "wire_ok rtol atol p \<Longrightarrow> ((suppress \<or> name (quantity p) = None) \<longrightarrow> pn = name (quantity p)) \<Longrightarrow>
   fromJsonFragment (class_name p) (toJsonFragment p suppress) pn = Inr (reloaded p)"
proof (induction p arbitrary: suppress pn)
  case (Bag q e vs)
  then show ?case using load_Bag[of rtol atol q e vs suppress pn] by simp
next
  case (Deviate q e m s)
  then show ?case using load_Deviate[of rtol atol q e m s suppress pn] by simp
next
  case (Fraction q e n d)
  have n: "fromJsonFragment (class_name n) (toJsonFragment n True) (name (quantity n)) = Inr (reloaded n)"
    using Fraction.IH(1)[of True "name (quantity n)"] Fraction.prems(1) by simp
  have "fromJsonFragment (class_name d) (toJsonFragment d True) (name (quantity d)) = Inr (reloaded d)"
    using Fraction.IH(2)[of True "name (quantity d)"] Fraction.prems(1) by simp
  then have d: "fromJsonFragment (class_name n) (toJsonFragment d True) (name (quantity n)) = Inr (reloaded d)"
    using Fraction.prems(1) by simp
  show ?case using load_Fraction[OF Fraction.prems(1) _ n d, of suppress pn] Fraction.prems(2) by simp
next
  case (Select q e c)
  have c: "fromJsonFragment (class_name c) (toJsonFragment c False) None = Inr (reloaded c)"
    using Select.IH[of False None] Select.prems(1) by auto
  show ?case using load_Select[OF Select.prems(1) _ c, of suppress pn] Select.prems(2) by simp
qed


lemma filter_sorted_items: "filter (\<lambda>(k, w). k \<noteq> KNum NaN) (sorted_items vs) = sorted_items vs"
  by (simp add: sorted_items_def filter_sort)

lemma sorted_items_idem: "sorted_items (sorted_items vs) = sorted_items vs"
proof -
  have "sorted (map (\<lambda>(k, w). key_rank k) (sorted_items vs))"
    by (simp add: sorted_items_def)
  then have "sort_key (\<lambda>(k, w). key_rank k) (sorted_items vs) = sorted_items vs"
    by (rule sort_key_id_if_sorted)
  then show ?thesis
    using filter_sorted_items[of vs] by (simp add: sorted_items_def[of "sorted_items vs"])
qed

lemma sorted_items_json_items: "sorted_items (json_items vs) = sorted_items vs"
proof -
  have "filter (\<lambda>(k, w). k \<noteq> KNum NaN) (json_items vs) = sorted_items vs"
    by (simp add: json_items_def filter_sorted_items split: option.splits)
  then have "sorted_items (json_items vs) = sort_key (\<lambda>(k, w). key_rank k) (sorted_items vs)"
    by (simp add: sorted_items_def[of "json_items vs"])
  also have "\<dots> = sorted_items (sorted_items vs)"
    by (simp add: sorted_items_def[of "sorted_items vs"] filter_sorted_items)
  finally show ?thesis by (simp add: sorted_items_idem)
qed

lemma map_of_sorted_items_nan: "map_of (sorted_items vs) (KNum NaN) = None"
  by (simp add: map_of_eq_None_iff keys_sorted_items)

lemma map_of_json_items_nan: "map_of (json_items vs) (KNum NaN) = map_of vs (KNum NaN)"
  by (simp add: json_items_def map_of_sorted_items_nan map_add_def split: option.splits)

lemma eq_items_json_items: "eq_items (json_items vs) = eq_items vs"
  by (simp add: eq_items_def sorted_items_json_items map_of_json_items_nan)

lemma length_filter_key:
  "distinct (map fst vs) \<Longrightarrow>
   length (filter (\<lambda>(k, w). k \<noteq> a) vs) + (case map_of vs a of None \<Rightarrow> 0 | Some n \<Rightarrow> 1) = length vs"
proof (induction vs)
  case Nil
  then show ?case by simp
next
  case (Cons x vs)
  obtain k w where x: "x = (k, w)" by (cases x)
  show ?case
  proof (cases "k = a")
    case True
    then have "a \<notin> fst ` set vs" using Cons.prems x by auto
    then have "map_of vs a = None" by (simp add: map_of_eq_None_iff)
    then show ?thesis using Cons x True by simp
  next
    case False
    then show ?thesis using Cons x by simp
  qed
qed

lemma length_json_items: "distinct (map fst vs) \<Longrightarrow> length (json_items vs) = length vs"
  using length_filter_key[of vs "KNum NaN"]
  by (auto simp: json_items_def sorted_items_def split: option.splits)

lemma plain_comparable: "plain_key k \<Longrightarrow> comparable_key k"
  by (cases k) auto

lemma eq_Bag_reloaded:
  assumes "0 \<le> rtol" "0 \<le> atol" "distinct (map fst vs)" "list_all (\<lambda>(k, n). plain_key k) vs"
  shows "eq rtol atol (Bag q e (json_items vs)) (Bag q e vs) = Inr True"
proof -
  have "list_all (\<lambda>(k, n). comparable_key k) vs"
    using assms(4) by (auto simp: list_all_iff plain_comparable)
  then have "Bag_values_eq rtol atol (json_items vs) vs"
    using Bag_values_eq_refl[OF assms(1,2), of vs]
    by (simp add: Bag_values_eq_def eq_items_json_items)
  then show ?thesis
    using length_json_items[OF assms(3)] numeq_refl[OF assms(1,2)] by simp
qed

lemma eq_Deviate_reloaded:
  assumes "0 \<le> rtol" "0 \<le> atol" "wire_ok rtol atol (Deviate q e m s)"
  shows "eq rtol atol (Deviate q' e m (variance (Deviate q e m s) * e)) (Deviate q' e m s) = Inr True"
  using assms numeq_refl[OF assms(1,2)]
  by (cases e; cases s) (auto simp: variance_def)

lemma eq_reloaded:
  "0 \<le> rtol \<Longrightarrow> 0 \<le> atol \<Longrightarrow> wire_ok rtol atol p \<Longrightarrow> eq rtol atol (reloaded p) (frozen p) = Inr True"
proof (induction p)
  case (Bag q e vs)
  then show ?case using eq_Bag_reloaded[of rtol atol vs "freeze q" e] by simp
next
  case (Deviate q e m s)
  then show ?case using eq_Deviate_reloaded[of rtol atol q e m s "freeze q"] by simp
next
  case (Fraction q e n d)
  then show ?case by (simp add: numeq_refl)
next
  case (Select q e c)
  then show ?case by (simp add: numeq_refl)
qed

text \<open>The condition on a Deviate is exact, for entries that \<open>ed\<close> accepts.\<close>

lemma wire_ok_Deviate_iff:
  assumes "0 \<le> rtol" "0 \<le> atol" "\<not> e < Fin 0"
  shows "wire_ok rtol atol (Deviate q e m s) \<longleftrightarrow>
     eq rtol atol (reloaded (Deviate q e m s)) (frozen (Deviate q e m s)) = Inr True"
  using assms numeq_refl[OF assms(1,2)]
  by (cases e; cases m; cases s;
      auto simp: Let_def minus_fl_def variance_def max_def split: if_splits)

lemma frozen_past: "past_tense p \<Longrightarrow> frozen p = p"
  by (induction p) (auto simp: freeze_def)

text \<open>
  C8, as the code has it. For all tolerances \<open>\<ge> 0\<close> and every tree that the wire
  format carries (\<open>wire_ok\<close>: no negative entries; finite entries on a Fraction and a
  Select; the children of a Fraction of one class and one name; in a Bag no string key
  \<open>"inf"\<close> or \<open>"-inf"\<close> and no NaN inside a tuple key; in a Deviate a
  \<open>varianceTimesEntries\<close> that is NaN or within tolerance of zero when the entries are
  zero, and not finite when the entries are infinite), reading the written tree
  succeeds and yields a tree equal to the past-tense form of the tree; so
  \<open>fromJson(toJson(P)) == P\<close> for every such past-tense \<open>P\<close>.
\<close>

theorem roundtrip:
  assumes "0 \<le> rtol" "0 \<le> atol" "wire_ok rtol atol p"
  shows "\<exists>r. fromJson (toJson p) = Inr r
           \<and> eq rtol atol r (frozen p) = Inr True
           \<and> (past_tense p \<longrightarrow> eq rtol atol r p = Inr True)"
proof -
  have "fromJson (toJson p) = fromJsonFragment (class_name p) (toJsonFragment p False) None"
    by (simp add: fromJson_def toJson_def registered_class_name del: fromJsonFragment.simps)
  also have "\<dots> = Inr (reloaded p)"
    using load_fragment[OF assms(3), of False None] by auto
  finally have "fromJson (toJson p) = Inr (reloaded p)" .
  then show ?thesis
    using eq_reloaded[OF assms] frozen_past[of p] by auto
qed


theorem roundtrip_witness:
  "\<exists>r. fromJson (toJson (Fraction \<lparr>expr = None, name = Some ''positive''\<rparr> (Fin 3)
                        (Bag \<lparr>expr = None, name = Some ''x''\<rparr> (Fin 2) [(KNum (Fin 2), Fin 2)])
                        (Bag \<lparr>expr = None, name = Some ''x''\<rparr> (Fin 3)
                           [(KNum (Fin 2), Fin 2), (KNum NaN, Fin (1/2)), (KNum (Fin (-1)), Fin (1/2))])
                      :: rat prim))
         = Inr (r :: rat prim)
       \<and> eq (1 / 10 ^ 12) (1 / 10 ^ 12) r
            (Fraction \<lparr>expr = None, name = Some ''positive''\<rparr> (Fin 3)
               (Bag \<lparr>expr = None, name = Some ''x''\<rparr> (Fin 2) [(KNum (Fin 2), Fin 2)])
               (Bag \<lparr>expr = None, name = Some ''x''\<rparr> (Fin 3)
                  [(KNum (Fin 2), Fin 2), (KNum NaN, Fin (1/2)), (KNum (Fin (-1)), Fin (1/2))]))
          = Inr True"
proof -
  let ?p = "Fraction \<lparr>expr = None, name = Some ''positive''\<rparr> (Fin 3)
              (Bag \<lparr>expr = None, name = Some ''x''\<rparr> (Fin 2) [(KNum (Fin 2), Fin 2)])
              (Bag \<lparr>expr = None, name = Some ''x''\<rparr> (Fin 3)
                 [(KNum (Fin 2), Fin 2), (KNum NaN, Fin (1/2)), (KNum (Fin (-1)), Fin (1/2))]) :: rat prim"
  have t: "(0::rat) \<le> 1 / 10 ^ 12" by simp
  have w: "wire_ok (1 / 10 ^ 12) (1 / 10 ^ 12) ?p" by simp
  have pt: "past_tense ?p" by simp
  show ?thesis using roundtrip[OF t t w] pt by blast
qed

text \<open>
  C8 as stated fails. A Select filled once with weight \<open>-1\<close> has entries \<open>-1\<close>, which
  \<open>Select.ed\<close> refuses when the written tree is read. And a Select filled once with
  weight 1 is read back without its extractors, so its cut is not equal to the cut it
  was written from.
\<close>

theorem roundtrip_counterexample:
  "fill ex_select 1 (Fin (-1))
     = (None, Select identity_q (Fin (-1)) (Deviate identity_q (Fin 0) (Fin 0) (Fin 0)))
   \<and> fromJson (toJson (Select identity_q (Fin (-1)) (Deviate identity_q (Fin 0) (Fin 0) (Fin 0))))
     = (Inl ValueError :: error + rat prim)
   \<and> fill ex_select 1 (Fin 1)
     = (None, Select identity_q (Fin 1) (Deviate identity_q (Fin 1) (Fin 1) (Fin 0)))
   \<and> fromJson (toJson (Select identity_q (Fin 1) (Deviate identity_q (Fin 1) (Fin 1) (Fin 0))))
     = Inr (Select \<lparr>expr = None, name = Some ''x''\<rparr> (Fin 1)
              (Deviate \<lparr>expr = None, name = Some ''x''\<rparr> (Fin 1) (Fin 1) (Fin 0)))
   \<and> eq (1 / 10 ^ 12) (1 / 10 ^ 12)
        (Select \<lparr>expr = None, name = Some ''x''\<rparr> (Fin 1)
           (Deviate \<lparr>expr = None, name = Some ''x''\<rparr> (Fin 1) (Fin 1) (Fin 0)))
        (Select identity_q (Fin 1) (Deviate identity_q (Fin 1) (Fin 1) (Fin 0))) = Inr False"
  by (simp add: ex_select_def identity_q_def call_def Let_def minus_fl_def toJson_def fromJson_def
      registered_def maybeAdd_def hasKeys_def get_name_def variance_def Deviate_fromJsonFragment_def
      Deviate_ed_def Select_ed_def set_name_def serializable_def)

end
